theory Spec2Isabelle
  imports Complex_Main
begin

section \<open>Python values, exceptions and numpy helpers\<close>

text \<open>
  Grid coordinates are pairs \<open>(row, col)\<close> of Python integers. A raised exception is the
  \<open>Inl\<close> branch of a sum; \<open>bindE\<close> sequences two steps and stops at the first exception.
\<close>

type_synonym pos = "int \<times> int"

datatype py_exception =
    ValueError string
  | IndexError
  | ZeroDivisionError
  | UnboundLocalError

datatype warning =
    CouldNotSetAllCities nat int
  | ChangingToGridMode
  | NoLineAdded
  | UnableToConnect

definition bindE :: "py_exception + 'a \<Rightarrow> ('a \<Rightarrow> py_exception + 'b) \<Rightarrow> py_exception + 'b" where
  "bindE m f = (case m of Inl e \<Rightarrow> Inl e | Inr x \<Rightarrow> f x)"

text \<open>Indexing a Python list or a numpy axis: a negative index counts from the end,
  anything outside raises IndexError.\<close>

definition py_index :: "'a list \<Rightarrow> int \<Rightarrow> py_exception + 'a" where
  "py_index xs i =
     (if 0 \<le> i \<and> i < int (length xs) then Inr (xs ! nat i)
      else if i < 0 \<and> - int (length xs) \<le> i then Inr (xs ! nat (int (length xs) + i))
      else Inl IndexError)"

text \<open>\<open>int(a / b)\<close> for Python integers with \<open>b > 0\<close>: true division, then truncation
  towards zero (exact for the magnitudes a grid can have).\<close>

definition int_truediv :: "int \<Rightarrow> int \<Rightarrow> int" where
  "int_truediv a b = (if 0 \<le> a then a div b else - ((- a) div b))"

definition np_arange :: "int \<Rightarrow> int list" where
  "np_arange n = map int [0..<nat n]"

definition np_abs :: "int list \<Rightarrow> int list" where
  "np_abs xs = map abs xs"

definition np_clip :: "int list \<Rightarrow> int \<Rightarrow> int \<Rightarrow> int list" where
  "np_clip xs a_min a_max = map (\<lambda>x. min a_max (max a_min x)) xs"

section \<open>Connection slots of a city side (\<open>_generate_city_connection_points\<close>, inner loop)\<close>

definition connection_slots :: "int \<Rightarrow> int \<Rightarrow> int list" where
  "connection_slots nr_of_connection_points start_idx =
     map (\<lambda>x. x - start_idx) (np_arange nr_of_connection_points)"

definition offset_distances :: "int \<Rightarrow> int list" where
  "offset_distances nr_of_connection_points =
     map (\<lambda>x. x - int_truediv nr_of_connection_points 2) (np_arange nr_of_connection_points)"

definition inner_point_offset :: "int \<Rightarrow> int list" where
  "inner_point_offset nr_of_connection_points =
     map (\<lambda>(a, c). a + c + 1)
       (zip (np_abs (offset_distances nr_of_connection_points))
            (np_clip (offset_distances nr_of_connection_points) 0 1))"

text \<open>The four \<open>if direction == d\<close> blocks: inner point and the point on the city border.\<close>

definition tmp_coordinates :: "nat \<Rightarrow> pos \<Rightarrow> int \<Rightarrow> int \<Rightarrow> int \<Rightarrow> pos" where
  "tmp_coordinates direction city_position city_radius off slot =
     (if direction = 0 then (fst city_position - city_radius + off, snd city_position + slot)
      else if direction = 1 then (fst city_position + slot, snd city_position + city_radius - off)
      else if direction = 2 then (fst city_position + city_radius - off, snd city_position + slot)
      else (fst city_position + slot, snd city_position - city_radius + off))"

definition out_tmp_coordinates :: "nat \<Rightarrow> pos \<Rightarrow> int \<Rightarrow> int \<Rightarrow> pos" where
  "out_tmp_coordinates direction city_position city_radius slot =
     (if direction = 0 then (fst city_position - city_radius, snd city_position + slot)
      else if direction = 1 then (fst city_position + slot, snd city_position + city_radius)
      else if direction = 2 then (fst city_position + city_radius, snd city_position + slot)
      else (fst city_position + slot, snd city_position - city_radius))"

text \<open>How far an inner point lies inside the border line of its side.\<close>

definition inward_distance :: "nat \<Rightarrow> pos \<Rightarrow> int \<Rightarrow> pos \<Rightarrow> int" where
  "inward_distance direction city_position city_radius p =
     (if direction = 0 then fst p - (fst city_position - city_radius)
      else if direction = 1 then (snd city_position + city_radius) - snd p
      else if direction = 2 then (fst city_position + city_radius) - fst p
      else snd p - (snd city_position - city_radius))"

text \<open>One pass of \<open>for connection_idx in range(connections_per_direction[direction])\<close>:
  the inner points of the side and the outer points of the slots
  \<open>start_idx \<le> connection_idx < start_idx + number_of_out_rails\<close>.\<close>

definition number_of_out_rails :: int where
  "number_of_out_rails = 2"

definition side_inner_points :: "nat \<Rightarrow> pos \<Rightarrow> int \<Rightarrow> int \<Rightarrow> int \<Rightarrow> pos list" where
  "side_inner_points direction city_position city_radius nr_of_connection_points count =
     (let start_idx = int_truediv (nr_of_connection_points - number_of_out_rails) 2
      in map (\<lambda>connection_idx.
            tmp_coordinates direction city_position city_radius
              (inner_point_offset nr_of_connection_points ! connection_idx)
              (connection_slots nr_of_connection_points start_idx ! connection_idx))
          [0..<nat count])"

definition side_outer_points :: "nat \<Rightarrow> pos \<Rightarrow> int \<Rightarrow> int \<Rightarrow> int \<Rightarrow> pos list" where
  "side_outer_points direction city_position city_radius nr_of_connection_points count =
     (let start_idx = int_truediv (nr_of_connection_points - number_of_out_rails) 2
      in map (\<lambda>connection_idx.
            out_tmp_coordinates direction city_position city_radius
              (connection_slots nr_of_connection_points start_idx ! connection_idx))
          (filter (\<lambda>connection_idx. start_idx \<le> int connection_idx
                                   \<and> int connection_idx < start_idx + number_of_out_rails)
             [0..<nat count]))"

section \<open>Train stations (\<open>_set_trainstation_positions\<close>)\<close>

text \<open>\<open>free_rails[current_city]\<close> and \<open>track[int(len(track) / 2)]\<close> raise IndexError when
  the city has no entry or the track is empty.\<close>

definition station_of_track :: "pos list \<Rightarrow> nat \<Rightarrow> py_exception + (pos \<times> nat)" where
  "station_of_track track track_nbr =
     bindE (py_index track (int_truediv (int (length track)) 2))
       (\<lambda>possible_location. Inr (possible_location, track_nbr))"

fun stations_of_city :: "pos list list \<Rightarrow> nat \<Rightarrow> py_exception + (pos \<times> nat) list" where
  "stations_of_city [] track_nbr = Inr []"
| "stations_of_city (track # rest) track_nbr =
     bindE (station_of_track track track_nbr) (\<lambda>s.
     bindE (stations_of_city rest (Suc track_nbr)) (\<lambda>ss. Inr (s # ss)))"

fun set_trainstation_loop ::
  "pos list list list \<Rightarrow> nat list \<Rightarrow> py_exception + (pos \<times> nat) list list" where
  "set_trainstation_loop free_rails [] = Inr []"
| "set_trainstation_loop free_rails (current_city # cities) =
     bindE (py_index free_rails (int current_city)) (\<lambda>tracks.
     bindE (stations_of_city tracks 0) (\<lambda>st.
     bindE (set_trainstation_loop free_rails cities) (\<lambda>sts. Inr (st # sts))))"

definition set_trainstation_positions ::
  "pos list \<Rightarrow> int \<Rightarrow> pos list list list \<Rightarrow> py_exception + (pos \<times> nat) list list" where
  "set_trainstation_positions city_positions city_radius free_rails =
     set_trainstation_loop free_rails [0..<length city_positions]"

section \<open>Malfunctions (\<open>ParamMalfunctionGen.generate\<close>)\<close>

text \<open>
  Python floats are modelled as reals. \<open>np_random.random_sample(3)\<close> reads the next three
  numbers of the generator; the state of the generator is the sequence of numbers still
  to come. \<open>agent.get_travel_time_on_shortest_path(distance_map)\<close> is a method of flatland's
  \<open>EnvAgent\<close> (a path length divided by a speed, rounded up: never negative).
\<close>

type_synonym float_state = "nat \<Rightarrow> real"

definition random_sample :: "float_state \<Rightarrow> nat \<Rightarrow> real list \<times> float_state" where
  "random_sample rs k = (map rs [0..<k], (\<lambda>j. rs (j + k)))"

record 'dm agent =
  position :: "pos option"
  initial_position :: "pos option"
  get_travel_time_on_shortest_path :: "'dm \<Rightarrow> nat"

datatype Malfunction = Malfunction (num_broken_steps: int)

definition cum_prob_array :: "real \<Rightarrow> nat \<Rightarrow> real" where
  "cum_prob_array param i =
     (1 - exp (- param * real (i + 1))) / (1 - exp (- param * 50))"

text \<open>The first branch: \<open>(malfunction_prob, expected_delay)\<close>.\<close>

definition malfunction_params :: "'dm \<Rightarrow> real \<Rightarrow> 'dm agent \<Rightarrow> real \<times> real" where
  "malfunction_params distance_map r0 a =
     (if position a = initial_position a then
        (if 0 \<le> r0 \<and> r0 \<le> 0.48 then (0.05, 0.2)
         else if 0.48 < r0 \<and> r0 \<le> 0.8 then (0.05, 0.5)
         else (0.05, 1))
      else
        (if 0 \<le> r0 \<and> r0 \<le> 0.48
           then (0.2 / (real (get_travel_time_on_shortest_path a distance_map) + 1), 1.3)
         else if 0.48 < r0 \<and> r0 \<le> 0.8
           then (0.5 / (real (get_travel_time_on_shortest_path a distance_map) + 1), 2)
         else (0.5 / (real (get_travel_time_on_shortest_path a distance_map) + 1), 5)))"

text \<open>The duration loop: the first \<open>i\<close> in \<open>range(49)\<close> whose interval holds the third
  random number gives \<open>i + 2\<close>; the initial value 2 stays when there is none.\<close>

definition broken_steps :: "real \<Rightarrow> real \<Rightarrow> int" where
  "broken_steps expected_delay r2 =
     (let param = 1 / (10 * expected_delay)
      in case find (\<lambda>i. cum_prob_array param i < r2 \<and> r2 < cum_prob_array param (i + 1)) [0..<49] of
           None \<Rightarrow> 2
         | Some i \<Rightarrow> int i + 2)"

definition malfunction_generate ::
  "'dm \<Rightarrow> float_state \<Rightarrow> 'dm agent \<Rightarrow> Malfunction \<times> float_state" where
  "malfunction_generate distance_map np_random a =
     (let (random_array, np_random') = random_sample np_random 3;
          (malfunction_prob, expected_delay) = malfunction_params distance_map (random_array ! 0) a;
          num_broken_steps =
            (if position a = None then 0
             else if random_array ! 1 < malfunction_prob then broken_steps expected_delay (random_array ! 2)
             else 0)
      in (Malfunction num_broken_steps, np_random'))"

section \<open>Random numbers and the flatland library\<close>

text \<open>
  The state of a numpy \<open>RandomState\<close> is the sequence of raw outcomes still to come;
  \<open>randint(low, high)\<close> maps the next one into \<open>[low, high)\<close> and raises ValueError on an
  empty range. \<open>np_random.randint(n)\<close> is \<open>randint 0 n\<close>.
\<close>

type_synonym RandomState = "nat \<Rightarrow> nat"

definition randint :: "RandomState \<Rightarrow> int \<Rightarrow> int \<Rightarrow> py_exception + (int \<times> RandomState)" where
  "randint np_random low high =
     (if high \<le> low then Inl (ValueError ''low >= high'')
      else Inr (low + int (np_random 0) mod (high - low), (\<lambda>j. np_random (Suc j))))"

text \<open>
  The functions of the flatland library that the generator calls are not part of this
  repository; they are parameters of the model. \<open>'g\<close> is the \<open>GridTransitionMap\<close>; a
  function that mutates the grid returns the new one. \<open>seed_state\<close> is the
  generator state that \<open>RandomState(seed)\<close> starts from.
\<close>

datatype Grid4TransitionsEnum = NORTH | EAST | SOUTH | WEST

fun dir_value :: "Grid4TransitionsEnum \<Rightarrow> nat" where
  "dir_value NORTH = 0"
| "dir_value EAST = 1"
| "dir_value SOUTH = 2"
| "dir_value WEST = 3"

record 'g flatland =
  direction_to_point :: "pos \<Rightarrow> pos \<Rightarrow> Grid4TransitionsEnum"
  align_cell_to_city :: "pos \<Rightarrow> nat \<Rightarrow> pos \<Rightarrow> int"
  GridTransitionMap :: "int \<Rightarrow> int \<Rightarrow> 'g"
  connect_rail_in_grid_map :: "'g \<Rightarrow> pos \<Rightarrow> pos \<Rightarrow> pos list \<Rightarrow> pos list \<times> 'g"
  connect_straight_line_in_grid_map :: "'g \<Rightarrow> pos \<Rightarrow> pos \<Rightarrow> pos list \<times> 'g"
  fix_inner_nodes :: "'g \<Rightarrow> pos \<Rightarrow> 'g"
  cell_neighbours_valid :: "'g \<Rightarrow> pos \<Rightarrow> bool"
  fix_transitions :: "'g \<Rightarrow> pos \<Rightarrow> int \<Rightarrow> 'g"
  seed_state :: "int \<Rightarrow> RandomState"

text \<open>\<open>Vec2dOperations.get_manhattan_distance\<close> of flatland.\<close>

definition get_manhattan_distance :: "pos \<Rightarrow> pos \<Rightarrow> int" where
  "get_manhattan_distance a b = \<bar>fst a - fst b\<bar> + \<bar>snd a - snd b\<bar>"

text \<open>\<open>SparseRailGen.argsort\<close>: \<open>sorted(range(len(seq)), key=seq.__getitem__)\<close>, a stable
  sort of the indices. \<open>np.argsort\<close> is modelled by the same function (numpy sorts short
  arrays by insertion, which keeps ties in index order).\<close>

definition argsort :: "int list \<Rightarrow> nat list" where
  "argsort seq = sort_key (\<lambda>i. seq ! i) [0..<length seq]"

section \<open>Clique detection (\<open>build_clique3\<close>, \<open>contains_cliques\<close>)\<close>

definition build_clique3 :: "nat list list \<Rightarrow> nat \<Rightarrow> py_exception + nat list" where
  "build_clique3 index_array index =
     bindE (py_index index_array (int index)) (\<lambda>row.
     bindE (py_index row 0) (\<lambda>closest_index1.
     bindE (py_index row 1) (\<lambda>closest_index2.
     bindE (py_index row 2) (\<lambda>closest_index3.
       Inr (sort [closest_index1, closest_index2, closest_index3])))))"

text \<open>\<open>list(dict.fromkeys(xs))\<close>: the first occurrence of every element, in order.\<close>

definition dict_fromkeys :: "'a list \<Rightarrow> 'a list" where
  "dict_fromkeys xs = rev (remdups (rev xs))"

text \<open>The body of \<open>for i in range(len(city_positions))\<close>: \<open>Inr True\<close> is
  \<open>return True\<close>, \<open>Inr False\<close> goes on with the next \<open>i\<close>.\<close>

definition clique_at :: "nat list list \<Rightarrow> nat \<Rightarrow> py_exception + bool" where
  "clique_at sort_index i =
     bindE (build_clique3 sort_index i) (\<lambda>clique3.
     bindE (build_clique3 sort_index (clique3 ! 1)) (\<lambda>clique31.
     bindE (build_clique3 sort_index (clique3 ! 2)) (\<lambda>clique32.
       if clique3 = clique31 \<and> clique3 = clique32 then Inr True
       else let cluster = dict_fromkeys (clique3 @ clique31 @ clique32) in
         if length cluster = 4 then
           bindE (py_index (filter (\<lambda>x. x \<notin> set clique3) cluster) 0) (\<lambda>additional_element.
           bindE (build_clique3 sort_index additional_element) (\<lambda>clique33.
             Inr (cluster = dict_fromkeys (cluster @ clique33))))
         else Inr False)))"

fun clique_loop :: "nat list list \<Rightarrow> nat list \<Rightarrow> py_exception + bool" where
  "clique_loop sort_index [] = Inr False"
| "clique_loop sort_index (i # rest) =
     bindE (clique_at sort_index i) (\<lambda>found.
       if found then Inr True else clique_loop sort_index rest)"

definition contains_cliques :: "pos list \<Rightarrow> py_exception + bool" where
  "contains_cliques city_positions =
     (let distance_array =
            map (\<lambda>a. map (\<lambda>b. get_manhattan_distance a b) city_positions) city_positions;
          sort_index = map argsort distance_array
      in clique_loop sort_index [0..<length city_positions])"

section \<open>City placement\<close>

subsection \<open>Random placement (\<open>_generate_random_city_positions\<close>)\<close>

text \<open>The \<open>allowed_grid\<close> is a \<open>height \<times> width\<close> array of 0 and 1. A slice bound is
  normalised as Python does: negative counts from the end, everything is clipped to the
  axis.\<close>

type_synonym uint8_grid = "nat list list"

definition np_zeros2 :: "int \<Rightarrow> int \<Rightarrow> py_exception + 'a::zero list list" where
  "np_zeros2 height width =
     (if height < 0 \<or> width < 0 then Inl (ValueError ''negative dimensions are not allowed'')
      else Inr (replicate (nat height) (replicate (nat width) 0)))"

definition slice_bound :: "nat \<Rightarrow> int \<Rightarrow> nat" where
  "slice_bound n i = (if i < 0 then nat (max 0 (int n + i)) else min n (nat i))"

definition set_slice :: "'a list \<Rightarrow> int \<Rightarrow> int \<Rightarrow> ('a \<Rightarrow> 'a) \<Rightarrow> 'a list" where
  "set_slice xs start stop f =
     map (\<lambda>(j, x). if slice_bound (length xs) start \<le> j \<and> j < slice_bound (length xs) stop
                    then f x else x)
       (enumerate 0 xs)"

definition set_block :: "'a list list \<Rightarrow> int \<Rightarrow> int \<Rightarrow> int \<Rightarrow> int \<Rightarrow> 'a \<Rightarrow> 'a list list" where
  "set_block g row_start row_end col_start col_end v =
     set_slice g row_start row_end (\<lambda>row. set_slice row col_start col_end (\<lambda>_. v))"

text \<open>\<open>np.where(allowed_grid == 1)\<close>: the matching cells in row-major order.\<close>

definition np_where_eq :: "'a list list \<Rightarrow> 'a \<Rightarrow> (nat \<times> nat) list" where
  "np_where_eq g v =
     concat (map (\<lambda>(i, row). map (\<lambda>(j, x). (i, j)) (filter (\<lambda>(j, x). x = v) (enumerate 0 row)))
               (enumerate 0 g))"

fun place_random_loop ::
  "nat \<Rightarrow> int \<Rightarrow> uint8_grid \<Rightarrow> RandomState \<Rightarrow> pos list \<Rightarrow> py_exception + (pos list \<times> RandomState)"
where
  "place_random_loop 0 city_radius_pad1 allowed_grid np_random city_positions =
     Inr (city_positions, np_random)"
| "place_random_loop (Suc k) city_radius_pad1 allowed_grid np_random city_positions =
     (let allowed_indexes = np_where_eq allowed_grid 1;
          num_allowed_points = length allowed_indexes
      in if num_allowed_points = 0 then Inr (city_positions, np_random)
         else
           bindE (randint np_random 0 (int num_allowed_points)) (\<lambda>(point_index, np_random').
           bindE (py_index allowed_indexes point_index) (\<lambda>(r, c).
             let row = int r; col = int c;
                 row_start = max 0 (row - 2 * city_radius_pad1);
                 col_start = max 0 (col - 2 * city_radius_pad1);
                 row_end = row + 2 * city_radius_pad1 + 1;
                 col_end = col + 2 * city_radius_pad1 + 1;
                 allowed_grid' = set_block allowed_grid row_start row_end col_start col_end 0
             in place_random_loop k city_radius_pad1 allowed_grid' np_random'
                  (city_positions @ [(row, col)]))))"

definition generate_random_city_positions ::
  "int \<Rightarrow> int \<Rightarrow> int \<Rightarrow> int \<Rightarrow> RandomState
     \<Rightarrow> py_exception + (pos list \<times> RandomState \<times> warning list)" where
  "generate_random_city_positions num_cities city_radius width height np_random =
     bindE (np_zeros2 height width) (\<lambda>allowed_grid0.
       let city_radius_pad1 = city_radius + 1;
           allowed_grid = set_block allowed_grid0 city_radius_pad1 (- city_radius_pad1)
                            city_radius_pad1 (- city_radius_pad1) 1
       in bindE (place_random_loop (nat num_cities) city_radius_pad1 allowed_grid np_random [])
            (\<lambda>(city_positions, np_random').
               let created_cites = length city_positions
               in Inr (city_positions, np_random',
                       if int created_cites < num_cities
                       then [CouldNotSetAllCities created_cites num_cities] else [])))"

subsection \<open>Placement on an even lattice (\<open>_generate_evenly_distr_city_positions\<close>)\<close>

text \<open>\<open>int(x)\<close> of a float truncates towards zero. \<open>np.linspace(start, stop, num, dtype=int)\<close>
  is \<open>start + i * step\<close> with \<open>step = (stop - start) / (num - 1)\<close>, the last element set to
  \<open>stop\<close>, every element truncated; a negative \<open>num\<close> raises ValueError.\<close>

definition int_of_float :: "real \<Rightarrow> int" where
  "int_of_float x = (if 0 \<le> x then \<lfloor>x\<rfloor> else \<lceil>x\<rceil>)"

text \<open>\<open>int(np.ceil(np.sqrt(x)))\<close> for \<open>x \<ge> 0\<close>: the least \<open>k\<close> with \<open>x \<le> k * k\<close>, found by
  search so that it can be evaluated (\<open>ceil_sqrt_eq\<close> below shows that it is \<open>\<lceil>sqrt x\<rceil>\<close>).\<close>

definition ceil_sqrt :: "real \<Rightarrow> int" where
  "ceil_sqrt x =
     (case find (\<lambda>k. x \<le> real (k * k)) [0..<Suc (nat \<lceil>x\<rceil>)] of
        Some k \<Rightarrow> int k
      | None \<Rightarrow> 0)"

definition np_linspace_int :: "int \<Rightarrow> int \<Rightarrow> int \<Rightarrow> py_exception + int list" where
  "np_linspace_int start stop num =
     (if num < 0 then Inl (ValueError ''Number of samples must be non-negative'')
      else if num = 0 then Inr []
      else if num = 1 then Inr [start]
      else let step = (real_of_int stop - real_of_int start) / real_of_int (num - 1)
           in Inr (map (\<lambda>i. int_of_float (real i * step + real_of_int start)) [0..<nat (num - 1)]
                   @ [stop]))"

fun evenly_loop ::
  "int list \<Rightarrow> int list \<Rightarrow> int \<Rightarrow> nat list \<Rightarrow> py_exception + pos list" where
  "evenly_loop row_positions col_positions cities_per_row [] = Inr []"
| "evenly_loop row_positions col_positions cities_per_row (city_idx # rest) =
     bindE (py_index row_positions (int city_idx mod cities_per_row)) (\<lambda>row.
     bindE (py_index col_positions (int city_idx div cities_per_row)) (\<lambda>col.
     bindE (evenly_loop row_positions col_positions cities_per_row rest) (\<lambda>ps.
       Inr ((row, col) # ps))))"

text \<open>The size of the lattice: \<open>cities_per_row\<close> and \<open>cities_per_col\<close>, each limited by the
  number of cities that fit (\<open>max_cities_per_row\<close>, \<open>max_cities_per_col\<close>).\<close>

definition cities_per_row :: "int \<Rightarrow> int \<Rightarrow> int \<Rightarrow> int \<Rightarrow> int" where
  "cities_per_row num_cities city_radius width height =
     (let aspect_ratio = real_of_int height / real_of_int width;
          padding = 2;
          city_size = 2 * (city_radius + 1);
          max_cities_per_row = (height - padding) div city_size
      in min (ceil_sqrt (real_of_int num_cities * aspect_ratio)) max_cities_per_row)"

definition cities_per_col :: "int \<Rightarrow> int \<Rightarrow> int \<Rightarrow> int \<Rightarrow> int" where
  "cities_per_col num_cities city_radius width height =
     (let padding = 2;
          city_size = 2 * (city_radius + 1);
          max_cities_per_col = (width - padding) div city_size
      in min (int_of_float (real_of_int
                \<lceil>real_of_int num_cities
                   / real_of_int (cities_per_row num_cities city_radius width height)\<rceil>))
             max_cities_per_col)"

text \<open>The function, with what raises on the way: the divisions by \<open>width\<close>, \<open>city_size\<close> and
  \<open>cities_per_row\<close>, and \<open>int\<close> of the not-a-number that the root of a negative gives.\<close>

definition generate_evenly_distr_city_positions ::
  "int \<Rightarrow> int \<Rightarrow> int \<Rightarrow> int \<Rightarrow> py_exception + pos list" where
  "generate_evenly_distr_city_positions num_cities city_radius width height =
     (if width = 0 then Inl ZeroDivisionError
      else if 2 * (city_radius + 1) = 0 then Inl ZeroDivisionError
      else if real_of_int num_cities * (real_of_int height / real_of_int width) < 0
        then Inl (ValueError ''cannot convert float NaN to integer'')
      else if cities_per_row num_cities city_radius width height = 0 then Inl ZeroDivisionError
      else
        let per_row = cities_per_row num_cities city_radius width height;
            per_col = cities_per_col num_cities city_radius width height;
            num_build_cities = min num_cities (per_col * per_row)
        in bindE (np_linspace_int (city_radius + 2) (height - (city_radius + 2)) per_row)
             (\<lambda>row_positions.
           bindE (np_linspace_int (city_radius + 2) (width - (city_radius + 2)) per_col)
             (\<lambda>col_positions.
             evenly_loop row_positions col_positions per_row [0..<nat num_build_cities])))"

section \<open>Connection points (\<open>_get_cells_in_city\<close>, \<open>_generate_city_connection_points\<close>)\<close>

text \<open>The \<open>vector_field\<close> is a \<open>height \<times> width\<close> array of preferred orientations, \<open>-1\<close> for
  none. Reading or writing \<open>a[(row, col)]\<close> normalises each index as numpy does.\<close>

definition norm_index :: "nat \<Rightarrow> int \<Rightarrow> py_exception + nat" where
  "norm_index n i =
     (if 0 \<le> i \<and> i < int n then Inr (nat i)
      else if i < 0 \<and> - int n \<le> i then Inr (nat (int n + i))
      else Inl IndexError)"

definition np_get2 :: "'a list list \<Rightarrow> pos \<Rightarrow> py_exception + 'a" where
  "np_get2 a cell =
     bindE (py_index a (fst cell)) (\<lambda>row. py_index row (snd cell))"

definition np_set2 :: "'a list list \<Rightarrow> pos \<Rightarrow> 'a \<Rightarrow> py_exception + 'a list list" where
  "np_set2 a cell v =
     bindE (norm_index (length a) (fst cell)) (\<lambda>i.
     bindE (norm_index (length (a ! i)) (snd cell)) (\<lambda>j.
       Inr (a[i := (a ! i)[j := v]])))"

fun align_cells ::
  "'g flatland \<Rightarrow> pos \<Rightarrow> nat \<Rightarrow> pos list \<Rightarrow> int list list \<Rightarrow> py_exception + int list list" where
  "align_cells E center city_orientation [] vector_field = Inr vector_field"
| "align_cells E center city_orientation (cell # cells) vector_field =
     bindE (np_set2 vector_field cell (align_cell_to_city E center city_orientation cell))
       (\<lambda>vector_field'. align_cells E center city_orientation cells vector_field')"

definition get_cells_in_city ::
  "'g flatland \<Rightarrow> pos \<Rightarrow> int \<Rightarrow> nat \<Rightarrow> int list list
     \<Rightarrow> py_exception + (pos list \<times> int list list)" where
  "get_cells_in_city E center radius city_orientation vector_field =
     (let x_range = [fst center - radius .. fst center + radius];
          y_range = [snd center - radius .. snd center + radius];
          city_cells = concat (map (\<lambda>x. map (\<lambda>y. (x, y)) y_range) x_range)
      in bindE (align_cells E center city_orientation city_cells vector_field)
           (\<lambda>vector_field'. Inr (city_cells, vector_field')))"

text \<open>One city of the loop: the orientation (drawn at random in grid mode, towards the
  closest other city otherwise), the cells of the city, the number of connection points
  and the points of the four sides.\<close>

definition city_connection_points ::
  "'g flatland \<Rightarrow> bool \<Rightarrow> pos list \<Rightarrow> int \<Rightarrow> int \<Rightarrow> pos \<Rightarrow> int list list \<Rightarrow> RandomState
     \<Rightarrow> py_exception + (pos list list \<times> pos list list \<times> nat \<times> pos list \<times> int list list \<times> RandomState)"
where
  "city_connection_points E grid_mode city_positions city_radius rail_pairs_in_city
       city_position vector_field np_random =
     (let neighb_dist = map (\<lambda>neighbour_city. get_manhattan_distance city_position neighbour_city)
                          city_positions;
          closest_neighb_idx = argsort neighb_dist
      in bindE (if grid_mode
                then bindE (randint np_random 0 4) (\<lambda>(d, np_random'). Inr (nat d, np_random'))
                else bindE (py_index closest_neighb_idx 1) (\<lambda>idx.
                     bindE (py_index city_positions (int idx)) (\<lambda>neighbour.
                       Inr (dir_value (direction_to_point E city_position neighbour), np_random))))
           (\<lambda>(current_closest_direction, np_random1).
              let connection_sides_idx =
                    [current_closest_direction, (current_closest_direction + 2) mod 4]
              in bindE (get_cells_in_city E city_position city_radius current_closest_direction
                          vector_field) (\<lambda>(cells, vector_field').
                 bindE (randint np_random1 1 (rail_pairs_in_city + 1)) (\<lambda>(k, np_random2).
                   let nr_of_connection_points = k * 2;
                       connections_per_direction =
                         map (\<lambda>direction. if direction \<in> set connection_sides_idx
                                            then nr_of_connection_points else 0) [0..<4];
                       connection_points_coordinates_inner =
                         map (\<lambda>direction. side_inner_points direction city_position city_radius
                                nr_of_connection_points (connections_per_direction ! direction))
                             [0..<4];
                       connection_points_coordinates_outer =
                         map (\<lambda>direction. side_outer_points direction city_position city_radius
                                nr_of_connection_points (connections_per_direction ! direction))
                             [0..<4]
                   in Inr (connection_points_coordinates_inner,
                           connection_points_coordinates_outer,
                           current_closest_direction, cells, vector_field', np_random2)))))"

record connection_points =
  cp_inner :: "pos list list list"
  cp_outer :: "pos list list list"
  cp_orientations :: "nat list"
  cp_cells :: "pos list"
  cp_vector_field :: "int list list"
  cp_rng :: RandomState

fun connection_points_loop ::
  "'g flatland \<Rightarrow> bool \<Rightarrow> pos list \<Rightarrow> int \<Rightarrow> int \<Rightarrow> pos list \<Rightarrow> connection_points
     \<Rightarrow> py_exception + connection_points" where
  "connection_points_loop E grid_mode city_positions city_radius rail_pairs_in_city [] acc = Inr acc"
| "connection_points_loop E grid_mode city_positions city_radius rail_pairs_in_city
       (city_position # rest) acc =
     bindE (city_connection_points E grid_mode city_positions city_radius rail_pairs_in_city
              city_position (cp_vector_field acc) (cp_rng acc))
       (\<lambda>(inner, outer, orientation, cells, vector_field', np_random').
          connection_points_loop E grid_mode city_positions city_radius rail_pairs_in_city rest
            \<lparr>cp_inner = cp_inner acc @ [inner],
             cp_outer = cp_outer acc @ [outer],
             cp_orientations = cp_orientations acc @ [orientation],
             cp_cells = cp_cells acc @ cells,
             cp_vector_field = vector_field',
             cp_rng = np_random'\<rparr>)"

definition generate_city_connection_points ::
  "'g flatland \<Rightarrow> bool \<Rightarrow> pos list \<Rightarrow> int \<Rightarrow> int list list \<Rightarrow> int \<Rightarrow> int \<Rightarrow> RandomState
     \<Rightarrow> py_exception + connection_points" where
  "generate_city_connection_points E grid_mode city_positions city_radius vector_field0
       rails_between_cities rail_pairs_in_city np_random =
     connection_points_loop E grid_mode city_positions city_radius rail_pairs_in_city
       city_positions
       \<lparr>cp_inner = [], cp_outer = [], cp_orientations = [],
        cp_cells = [], cp_vector_field = vector_field0, cp_rng = np_random\<rparr>"

section \<open>Connecting the cities (\<open>_connect_cities\<close>)\<close>

text \<open>
  The function keeps its working values in local variables that live across the
  iterations of all its loops; several of them are first assigned inside a branch. A
  local is \<open>None\<close> until it is assigned, and reading it then raises UnboundLocalError.
  \<open>cc_out\<close> is what the routing calls write: the grid, the cells of all paths and the
  warnings.
\<close>

record cc_locals =
  set_of_connections :: "(nat \<times> nat) list"
  loop_i :: int
  connection_points_copy :: "pos list list list"
  neighbour_connection_point :: "pos option"
  next_neighbour_connection_point :: "pos option"
  last_city_out_connection_point :: "pos option"
  current_direction :: "nat option"
  neighbour_index_for_connection :: "nat option"
  possible_connection :: "(nat \<times> nat) option"
  city_direction :: "nat option"

record 'g cc_out =
  out_grid :: 'g
  out_paths :: "pos list"
  out_warnings :: "warning list"

definition unbound :: "'a option \<Rightarrow> py_exception + 'a" where
  "unbound v = (case v of None \<Rightarrow> Inl UnboundLocalError | Some x \<Rightarrow> Inr x)"

text \<open>One routing call with its check: \<open>connect_rail_in_grid_map\<close>, a warning when the
  line is empty or does not start and end at the requested cells, and
  \<open>all_paths.extend(new_line)\<close>.\<close>

definition route :: "'g flatland \<Rightarrow> pos list \<Rightarrow> pos \<Rightarrow> pos \<Rightarrow> 'g cc_out \<Rightarrow> 'g cc_out" where
  "route E forbidden_cells start end out =
     (let (new_line, grid') = connect_rail_in_grid_map E (out_grid out) start end forbidden_cells
      in \<lparr>out_grid = grid',
          out_paths = out_paths out @ new_line,
          out_warnings = out_warnings out @
            (if length new_line = 0 then [NoLineAdded]
             else if last new_line \<noteq> end \<or> hd new_line \<noteq> start then [UnableToConnect]
             else [])\<rparr>)"

text \<open>The search \<open>for direction in grid4_directions: for tmp_in_connection_point in ...\<close>:
  the first point of the neighbour with the smallest distance, with its side.\<close>

definition four_sides :: "pos list list list \<Rightarrow> nat \<Rightarrow> py_exception + pos list list" where
  "four_sides points city =
     bindE (py_index points (int city)) (\<lambda>sides.
     bindE (py_index sides 0) (\<lambda>s0.
     bindE (py_index sides 1) (\<lambda>s1.
     bindE (py_index sides 2) (\<lambda>s2.
     bindE (py_index sides 3) (\<lambda>s3. Inr [s0, s1, s2, s3])))))"

definition closest_point_search :: "pos \<Rightarrow> pos list list \<Rightarrow> (int \<times> pos \<times> nat) option" where
  "closest_point_search city_out_connection_point sides =
     foldl (\<lambda>best (direction, tmp_in_connection_point).
              let tmp_dist = get_manhattan_distance city_out_connection_point tmp_in_connection_point
              in case best of
                   None \<Rightarrow> Some (tmp_dist, tmp_in_connection_point, direction)
                 | Some (min_connection_dist, _, _) \<Rightarrow>
                     if tmp_dist < min_connection_dist
                     then Some (tmp_dist, tmp_in_connection_point, direction) else best)
       None
       (concat (map (\<lambda>direction. map (\<lambda>p. (direction, p)) (sides ! direction)) [0..<4]))"

text \<open>The branch \<open>if i % 2 == 0\<close>. \<open>neighbour\<close> is \<open>closest_neighb_idx[1]\<close> in the first
  pass and \<open>closest_neighb_idx[2]\<close>, evaluated here, in the second.\<close>

definition even_step ::
  "'g flatland \<Rightarrow> pos list \<Rightarrow> nat \<Rightarrow> pos \<Rightarrow> py_exception + nat \<Rightarrow> pos \<Rightarrow> cc_locals
     \<Rightarrow> py_exception + cc_locals" where
  "even_step E city_positions current_city_idx city_position neighbour
       city_out_connection_point loc =
     bindE neighbour (\<lambda>nb.
     bindE (four_sides (connection_points_copy loc) nb) (\<lambda>sides.
       let loc1 = (case closest_point_search city_out_connection_point sides of
                     None \<Rightarrow> loc
                   | Some (_, p, direction) \<Rightarrow>
                       loc\<lparr>neighbour_connection_point := Some p,
                           current_direction := Some direction,
                           neighbour_index_for_connection := Some nb\<rparr>)
       in bindE (unbound (neighbour_index_for_connection loc1)) (\<lambda>nifc.
            let reversed_possible_connection = (nifc, current_city_idx);
                cdir = dir_value (direction_to_point E city_position city_out_connection_point);
                loc2 = loc1\<lparr>possible_connection := Some (current_city_idx, nifc),
                            city_direction := Some cdir\<rparr>
            in bindE (py_index city_positions (int nb)) (\<lambda>neighbour_position.
               bindE (unbound (neighbour_connection_point loc2)) (\<lambda>ncp.
                 let neighbour_direction = dir_value (direction_to_point E neighbour_position ncp)
                 in if reversed_possible_connection \<notin> set (set_of_connections loc2) then
                      bindE (unbound (current_direction loc2)) (\<lambda>cur.
                      bindE (py_index (connection_points_copy loc2) (int nb)) (\<lambda>nb_sides.
                      bindE (py_index nb_sides (int cur)) (\<lambda>pts.
                      bindE (if cdir + neighbour_direction \<in> {1, 5} \<or> cdir = neighbour_direction
                             then bindE (py_index pts 1) (\<lambda>a. bindE (py_index pts 0) (\<lambda>b. Inr (a, b)))
                             else bindE (py_index pts 0) (\<lambda>a. bindE (py_index pts 1) (\<lambda>b. Inr (a, b))))
                        (\<lambda>(a, b).
                           Inr (loc2\<lparr>neighbour_connection_point := Some a,
                                     next_neighbour_connection_point := Some b,
                                     connection_points_copy :=
                                       (connection_points_copy loc2)
                                         [nb := nb_sides[cur := remove1 a pts]],
                                     last_city_out_connection_point :=
                                       Some city_out_connection_point\<rparr>)))))
                    else Inr (loc2\<lparr>loop_i := loop_i loc2 + 1\<rparr>))))))"

text \<open>The branch \<open>else\<close> (odd \<open>i\<close>): the two lines of the pair, in the order the relative
  position of the points asks for.\<close>

definition odd_step ::
  "'g flatland \<Rightarrow> pos list \<Rightarrow> pos \<Rightarrow> cc_locals \<times> 'g cc_out
     \<Rightarrow> py_exception + (cc_locals \<times> 'g cc_out)" where
  "odd_step E forbidden_cells city_out_connection_point s =
     (let loc = fst s; out = snd s in
      bindE (unbound (city_direction loc)) (\<lambda>cdir.
      bindE (unbound (neighbour_connection_point loc)) (\<lambda>ncp.
      bindE (unbound (last_city_out_connection_point loc)) (\<lambda>lcocp.
        if (cdir = 0 \<or> cdir = 1) \<and>
             ((fst ncp < fst lcocp \<and> snd ncp > snd lcocp) \<or>
              (fst ncp > fst lcocp \<and> snd ncp < snd lcocp)) \<or>
           (cdir = 2 \<or> cdir = 3) \<and>
             ((fst ncp < fst lcocp \<and> snd ncp < snd lcocp) \<or>
              (fst ncp > fst lcocp \<and> snd ncp > snd lcocp))
        then
          bindE (unbound (next_neighbour_connection_point loc)) (\<lambda>nncp.
            let out1 = route E forbidden_cells city_out_connection_point nncp out;
                out2 = route E forbidden_cells lcocp ncp out1
            in bindE (unbound (possible_connection loc)) (\<lambda>pc.
                 Inr (loc\<lparr>set_of_connections := set_of_connections loc @ [pc]\<rparr>, out2)))
        else
          (let out1 = route E forbidden_cells lcocp ncp out
           in bindE (unbound (possible_connection loc)) (\<lambda>pc.
              bindE (unbound (next_neighbour_connection_point loc)) (\<lambda>nncp.
                Inr (loc\<lparr>set_of_connections := set_of_connections loc @ [pc]\<rparr>,
                     route E forbidden_cells city_out_connection_point nncp out1))))))))"

text \<open>\<open>for city_out_connection_point in connection_points[current_city_idx][out_direction]\<close>,
  with \<open>i += 1\<close> at the end of every iteration.\<close>

fun connect_pass ::
  "'g flatland \<Rightarrow> pos list \<Rightarrow> pos list \<Rightarrow> nat \<Rightarrow> pos \<Rightarrow> py_exception + nat \<Rightarrow> pos list
     \<Rightarrow> cc_locals \<times> 'g cc_out \<Rightarrow> py_exception + (cc_locals \<times> 'g cc_out)" where
  "connect_pass E city_positions forbidden_cells current_city_idx city_position neighbour [] s =
     Inr s"
| "connect_pass E city_positions forbidden_cells current_city_idx city_position neighbour
       (city_out_connection_point # rest) s =
     bindE (if loop_i (fst s) mod 2 = 0
            then bindE (even_step E city_positions current_city_idx city_position neighbour
                          city_out_connection_point (fst s))
                   (\<lambda>loc'. Inr (loc', snd s))
            else odd_step E forbidden_cells city_out_connection_point s)
       (\<lambda>s'. connect_pass E city_positions forbidden_cells current_city_idx city_position
                neighbour rest (fst s'\<lparr>loop_i := loop_i (fst s') + 1\<rparr>, snd s'))"

text \<open>The two directions a city connects out of. \<open>closest_neighb_idx[2]\<close> is read only when
  the side towards the closest city has outer points.\<close>

definition out_directions ::
  "'g flatland \<Rightarrow> pos list \<Rightarrow> pos list list \<Rightarrow> pos \<Rightarrow> nat list \<Rightarrow> py_exception + (nat \<times> nat)" where
  "out_directions E city_positions city_points city_position closest_neighb_idx =
     bindE (py_index closest_neighb_idx 1) (\<lambda>n1.
     bindE (py_index city_positions (int n1)) (\<lambda>p1.
       let closest_direction = dir_value (direction_to_point E city_position p1)
       in bindE (py_index city_points (int closest_direction)) (\<lambda>pts.
            if pts = [] then
              Inr ((closest_direction + 1) mod 4, ((closest_direction + 1) mod 4 + 2) mod 4)
            else
              bindE (py_index closest_neighb_idx 2) (\<lambda>n2.
              bindE (py_index city_positions (int n2)) (\<lambda>p2.
                let second_closest_direction = dir_value (direction_to_point E city_position p2)
                in bindE (py_index city_points (int second_closest_direction)) (\<lambda>pts2.
                     Inr (closest_direction,
                          if pts2 = [] then (closest_direction + 2) mod 4
                          else second_closest_direction)))))))"

text \<open>One iteration of \<open>for current_city_idx in np.arange(len(city_positions))\<close>. The value
  of \<open>_closest_neighbour_in_grid4_directions\<close> is computed and never used, and the call
  cannot raise; it is left out.\<close>

definition connect_city ::
  "'g flatland \<Rightarrow> pos list \<Rightarrow> pos list list list \<Rightarrow> pos list \<Rightarrow> nat
     \<Rightarrow> cc_locals \<times> 'g cc_out \<Rightarrow> py_exception + (cc_locals \<times> 'g cc_out)" where
  "connect_city E city_positions connection_points forbidden_cells current_city_idx s =
     bindE (py_index city_positions (int current_city_idx)) (\<lambda>city_position.
       let neighb_dist = map (\<lambda>neighbour_city. get_manhattan_distance city_position neighbour_city)
                           city_positions;
           closest_neighb_idx = argsort neighb_dist
       in bindE (py_index connection_points (int current_city_idx)) (\<lambda>city_points.
          bindE (out_directions E city_positions city_points city_position closest_neighb_idx)
            (\<lambda>(closest_direction, second_closest_direction).
          bindE (py_index city_points (int closest_direction)) (\<lambda>outs.
          bindE (connect_pass E city_positions forbidden_cells current_city_idx city_position
                   (py_index closest_neighb_idx 1) outs
                   (fst s\<lparr>connection_points_copy := connection_points, loop_i := 0\<rparr>, snd s))
            (\<lambda>s1.
               if closest_direction \<noteq> second_closest_direction then
                 bindE (py_index city_points (int second_closest_direction)) (\<lambda>outs2.
                   connect_pass E city_positions forbidden_cells current_city_idx city_position
                     (py_index closest_neighb_idx 2) outs2
                     (fst s1\<lparr>connection_points_copy := connection_points\<rparr>, snd s1))
               else Inr s1)))))"

fun connect_cities_loop ::
  "'g flatland \<Rightarrow> pos list \<Rightarrow> pos list list list \<Rightarrow> pos list \<Rightarrow> nat list
     \<Rightarrow> cc_locals \<times> 'g cc_out \<Rightarrow> py_exception + (cc_locals \<times> 'g cc_out)" where
  "connect_cities_loop E city_positions connection_points forbidden_cells [] s = Inr s"
| "connect_cities_loop E city_positions connection_points forbidden_cells (idx # rest) s =
     bindE (connect_city E city_positions connection_points forbidden_cells idx s)
       (\<lambda>s'. connect_cities_loop E city_positions connection_points forbidden_cells rest s')"

definition initial_locals :: cc_locals where
  "initial_locals =
     \<lparr>set_of_connections = [], loop_i = 0, connection_points_copy = [],
      neighbour_connection_point = None, next_neighbour_connection_point = None,
      last_city_out_connection_point = None, current_direction = None,
      neighbour_index_for_connection = None, possible_connection = None,
      city_direction = None\<rparr>"

text \<open>The result: \<open>all_paths\<close>, with the grid the routing calls have drawn on and the
  warnings they gave.\<close>

definition connect_cities ::
  "'g flatland \<Rightarrow> pos list \<Rightarrow> pos list list list \<Rightarrow> pos list \<Rightarrow> 'g \<Rightarrow> py_exception + 'g cc_out"
where
  "connect_cities E city_positions connection_points forbidden_cells grid =
     bindE (connect_cities_loop E city_positions connection_points forbidden_cells
              [0..<length city_positions]
              (initial_locals, \<lparr>out_grid = grid, out_paths = [], out_warnings = []\<rparr>))
       (\<lambda>s. Inr (snd s))"

section \<open>Inner cities (\<open>_build_inner_cities\<close>)\<close>

text \<open>\<open>for i in range(4): if len(inner_connection_points[current_city][i]) > 0: boarder = i;
  break\<close>. The local \<open>boarder\<close> keeps its value from the city before when no side has points.\<close>

fun find_boarder :: "pos list list \<Rightarrow> nat list \<Rightarrow> nat option \<Rightarrow> py_exception + nat option" where
  "find_boarder sides [] boarder = Inr boarder"
| "find_boarder sides (i # rest) boarder =
     bindE (py_index sides (int i)) (\<lambda>pts.
       if length pts > 0 then Inr (Some i) else find_boarder sides rest boarder)"

fun parallel_tracks ::
  "'g flatland \<Rightarrow> pos list list \<Rightarrow> nat \<Rightarrow> nat \<Rightarrow> nat list \<Rightarrow> 'g
     \<Rightarrow> py_exception + (pos list list \<times> 'g)" where
  "parallel_tracks E inner boarder opposite_boarder [] grid = Inr ([], grid)"
| "parallel_tracks E inner boarder opposite_boarder (track_id # rest) grid =
     bindE (py_index inner (int boarder)) (\<lambda>sources.
     bindE (py_index sources (int track_id)) (\<lambda>source.
     bindE (py_index inner (int opposite_boarder)) (\<lambda>targets.
     bindE (py_index targets (int track_id)) (\<lambda>target.
       let (current_track, grid') = connect_straight_line_in_grid_map E grid source target
       in bindE (parallel_tracks E inner boarder opposite_boarder rest grid') (\<lambda>(tracks, grid'').
            Inr (current_track # tracks, grid''))))))"

fun outer_links ::
  "'g flatland \<Rightarrow> pos list list \<Rightarrow> pos list list \<Rightarrow> nat \<Rightarrow> nat \<Rightarrow> int \<Rightarrow> int \<Rightarrow> nat list \<Rightarrow> 'g
     \<Rightarrow> py_exception + 'g" where
  "outer_links E inner outer boarder opposite_boarder start_idx n_out [] grid = Inr grid"
| "outer_links E inner outer boarder opposite_boarder start_idx n_out (track_id # rest) grid =
     bindE (py_index inner (int boarder)) (\<lambda>sources.
     bindE (py_index sources (int track_id)) (\<lambda>source.
     bindE (py_index inner (int opposite_boarder)) (\<lambda>targets.
     bindE (py_index targets (int track_id)) (\<lambda>target.
       let grid1 = fix_inner_nodes E grid source;
           grid2 = fix_inner_nodes E grid1 target
       in bindE (if start_idx \<le> int track_id \<and> int track_id < start_idx + n_out then
                   bindE (py_index outer (int boarder)) (\<lambda>source_outers.
                   bindE (py_index source_outers (int track_id - start_idx)) (\<lambda>source_outer.
                   bindE (py_index outer (int opposite_boarder)) (\<lambda>target_outers.
                   bindE (py_index target_outers (int track_id - start_idx)) (\<lambda>target_outer.
                     let grid3 = snd (connect_straight_line_in_grid_map E grid2 source source_outer)
                     in Inr (snd (connect_straight_line_in_grid_map E grid3 target target_outer))))))
                 else Inr grid2)
            (\<lambda>grid'. outer_links E inner outer boarder opposite_boarder start_idx n_out
                        rest grid')))))"

definition build_inner_city ::
  "'g flatland \<Rightarrow> pos list list list \<Rightarrow> pos list list list \<Rightarrow> nat \<Rightarrow> nat option \<times> 'g
     \<Rightarrow> py_exception + (pos list list \<times> nat option \<times> 'g)" where
  "build_inner_city E inner_connection_points outer_connection_points current_city s =
     bindE (py_index inner_connection_points (int current_city)) (\<lambda>inner.
     bindE (find_boarder inner [0..<4] (fst s)) (\<lambda>boarder_opt.
     bindE (unbound boarder_opt) (\<lambda>boarder.
       let opposite_boarder = (boarder + 2) mod 4
       in bindE (py_index inner (int boarder)) (\<lambda>sources.
          bindE (py_index outer_connection_points (int current_city)) (\<lambda>outer.
          bindE (py_index outer (int boarder)) (\<lambda>source_outers.
            let nr_of_connection_points = length sources;
                n_out = int (length source_outers);
                start_idx = int_truediv (int nr_of_connection_points - n_out) 2
            in bindE (parallel_tracks E inner boarder opposite_boarder
                        [0..<nr_of_connection_points] (snd s)) (\<lambda>(tracks, grid1).
               bindE (outer_links E inner outer boarder opposite_boarder start_idx n_out
                        [0..<nr_of_connection_points] grid1) (\<lambda>grid2.
                 Inr (tracks, boarder_opt, grid2)))))))))"

fun build_inner_cities_loop ::
  "'g flatland \<Rightarrow> pos list list list \<Rightarrow> pos list list list \<Rightarrow> nat list \<Rightarrow> nat option \<times> 'g
     \<Rightarrow> py_exception + (pos list list list \<times> 'g)" where
  "build_inner_cities_loop E inner_connection_points outer_connection_points [] s =
     Inr ([], snd s)"
| "build_inner_cities_loop E inner_connection_points outer_connection_points
       (current_city # rest) s =
     bindE (build_inner_city E inner_connection_points outer_connection_points current_city s)
       (\<lambda>(tracks, boarder_opt, grid').
     bindE (build_inner_cities_loop E inner_connection_points outer_connection_points rest
              (boarder_opt, grid'))
       (\<lambda>(free_rails, grid''). Inr (tracks # free_rails, grid'')))"

definition build_inner_cities ::
  "'g flatland \<Rightarrow> pos list \<Rightarrow> pos list list list \<Rightarrow> pos list list list \<Rightarrow> 'g
     \<Rightarrow> py_exception + (pos list list list \<times> 'g)" where
  "build_inner_cities E city_positions inner_connection_points outer_connection_points grid =
     build_inner_cities_loop E inner_connection_points outer_connection_points
       [0..<length city_positions] (None, grid)"

section \<open>Repairing transitions (\<open>_fix_transitions\<close>)\<close>

text \<open>\<open>rails_to_fix\<close> holds three integers for every invalid cell: row, column and the
  orientation from the vector field; it has room for \<open>2 * height * width\<close> cells, and a
  write beyond that raises IndexError.\<close>

fun collect_rails_to_fix ::
  "'g flatland \<Rightarrow> 'g \<Rightarrow> int list list \<Rightarrow> int \<Rightarrow> pos list \<Rightarrow> (pos \<times> int) list
     \<Rightarrow> py_exception + (pos \<times> int) list" where
  "collect_rails_to_fix E grid vf capacity [] rails_to_fix = Inr rails_to_fix"
| "collect_rails_to_fix E grid vf capacity (cell # cells) rails_to_fix =
     (if \<not> cell_neighbours_valid E grid cell then
        (if 3 * int (length rails_to_fix) + 2 < capacity then
           bindE (np_get2 vf cell) (\<lambda>orientation.
             collect_rails_to_fix E grid vf capacity cells (rails_to_fix @ [(cell, orientation)]))
         else Inl IndexError)
      else collect_rails_to_fix E grid vf capacity cells rails_to_fix)"

definition fix_transitions_pass ::
  "'g flatland \<Rightarrow> pos list \<Rightarrow> pos list \<Rightarrow> 'g \<Rightarrow> int list list \<Rightarrow> int \<Rightarrow> int \<Rightarrow> py_exception + 'g"
where
  "fix_transitions_pass E cells inter_city_lines grid vf height width =
     (let cells_to_fix = cells @ inter_city_lines
      in bindE (collect_rails_to_fix E grid vf (3 * height * width * 2) cells_to_fix [])
           (\<lambda>rails_to_fix.
              Inr (foldl (\<lambda>g (cell, orientation). fix_transitions E g cell orientation)
                     grid rails_to_fix)))"

section \<open>The generator (\<open>SparseRailGen.generate\<close>)\<close>

record SparseRailGen =
  max_num_cities :: int
  grid_mode :: bool
  max_rails_between_cities :: int
  max_rail_pairs_in_city :: int
  seed :: "int option"

record 'g rail_product =
  product_grid :: 'g
  hint_city_positions :: "pos list"
  hint_train_stations :: "(pos \<times> nat) list list"
  hint_city_orientations :: "nat list"
  product_warnings :: "warning list"

definition InfeasibleLayout :: py_exception where
  "InfeasibleLayout =
     ValueError ''ERROR: Cannot fit more than one city in this map, no feasible environment possible!''"

text \<open>\<open>RandomState(seed)\<close>: numpy accepts an integer seed from 0 to \<open>2**32 - 1\<close> and raises
  ValueError for any other.\<close>

definition RandomState_of_seed :: "'g flatland \<Rightarrow> int \<Rightarrow> py_exception + RandomState" where
  "RandomState_of_seed E sd =
     (if 0 \<le> sd \<and> sd < 2 ^ 32 then Inr (seed_state E sd)
      else Inl (ValueError ''Seed must be between 0 and 2**32 - 1''))"

definition seed_accepted :: "SparseRailGen \<Rightarrow> bool" where
  "seed_accepted self \<longleftrightarrow> (case seed self of None \<Rightarrow> True | Some sd \<Rightarrow> 0 \<le> sd \<and> sd < 2 ^ 32)"

text \<open>Lines 115 to 118: the generator's own seed wins over the \<open>np_random\<close> argument; with
  neither, the state is seeded from numpy's global generator (\<open>ambient\<close>).\<close>

definition choose_random_state ::
  "'g flatland \<Rightarrow> SparseRailGen \<Rightarrow> RandomState option \<Rightarrow> RandomState \<Rightarrow> py_exception + RandomState"
where
  "choose_random_state E self np_random ambient =
     (case seed self of
        Some sd \<Rightarrow> RandomState_of_seed E sd
      | None \<Rightarrow>
          (case np_random of
             Some r \<Rightarrow> Inr r
           | None \<Rightarrow> bindE (randint ambient 0 (2 ^ 32)) (\<lambda>(v, _). RandomState_of_seed E v)))"

definition rail_pairs_in_city_of :: "SparseRailGen \<Rightarrow> int" where
  "rail_pairs_in_city_of self =
     (let min_nr_rail_pairs_in_city = 1
      in if max_rail_pairs_in_city self < min_nr_rail_pairs_in_city
         then min_nr_rail_pairs_in_city else max_rail_pairs_in_city self)"

definition rails_between_cities_of :: "SparseRailGen \<Rightarrow> int" where
  "rails_between_cities_of self =
     (if max_rails_between_cities self > rail_pairs_in_city_of self * 2
      then rail_pairs_in_city_of self * 2 else max_rails_between_cities self)"

definition city_radius_of :: "SparseRailGen \<Rightarrow> int" where
  "city_radius_of self =
     (let city_padding = 2
      in int_of_float (real_of_int \<lceil>real_of_int (rail_pairs_in_city_of self * 2) / 2\<rceil>)
         + city_padding)"

definition max_feasible_cities_of :: "SparseRailGen \<Rightarrow> int \<Rightarrow> int \<Rightarrow> int" where
  "max_feasible_cities_of self width height =
     min (max_num_cities self)
         (((height - 2) div (2 * (city_radius_of self + 1)))
          * ((width - 2) div (2 * (city_radius_of self + 1))))"

text \<open>Lines 156 to 160: \<open>while contains_cliques:\<close> places the cities again. The loop has no
  bound, so its model is a partial function: \<open>None\<close> when it never ends.\<close>

type_synonym placement = "pos list \<times> RandomState \<times> warning list"

partial_function (option) redo_while_cliques ::
  "(RandomState \<Rightarrow> py_exception + placement) \<Rightarrow> placement \<Rightarrow> (py_exception + placement) option"
where
  "redo_while_cliques place s =
     (case contains_cliques (fst s) of
        Inl e \<Rightarrow> Some (Inl e)
      | Inr cliques \<Rightarrow>
          if cliques then
            (case place (fst (snd s)) of
               Inl e \<Rightarrow> Some (Inl e)
             | Inr s' \<Rightarrow>
                 redo_while_cliques place (fst s', fst (snd s'), snd (snd s) @ snd (snd s')))
          else Some (Inr s))"

declare redo_while_cliques.simps [code]

text \<open>Lines 161 to 168: with fewer than two cities the generator warns and places the
  cities on the even lattice.\<close>

definition fallback_to_grid :: "int \<Rightarrow> int \<Rightarrow> int \<Rightarrow> int \<Rightarrow> placement \<Rightarrow> py_exception + placement" where
  "fallback_to_grid max_feasible_cities city_radius width height s =
     (let num_cities = length (fst s)
      in if num_cities < 2 then
           bindE (generate_evenly_distr_city_positions max_feasible_cities city_radius width height)
             (\<lambda>city_positions. Inr (city_positions, fst (snd s), snd (snd s) @ [ChangingToGridMode]))
         else Inr s)"

text \<open>Lines 145 to 168: the city positions, the generator state after placing them and
  the warnings given.\<close>

definition place_cities ::
  "SparseRailGen \<Rightarrow> int \<Rightarrow> int \<Rightarrow> int \<Rightarrow> int \<Rightarrow> RandomState \<Rightarrow> (py_exception + placement) option"
where
  "place_cities self max_feasible_cities city_radius width height np_random =
     (case (if grid_mode self then
              Some (bindE (generate_evenly_distr_city_positions max_feasible_cities city_radius
                             width height)
                      (\<lambda>city_positions. Inr (city_positions, np_random, [])))
            else
              (case generate_random_city_positions max_feasible_cities city_radius width height
                      np_random of
                 Inl e \<Rightarrow> Some (Inl e)
               | Inr s \<Rightarrow>
                   if max_num_cities self > 4 then
                     redo_while_cliques
                       (generate_random_city_positions max_feasible_cities city_radius width height)
                       s
                   else Some (Inr s))) of
        None \<Rightarrow> None
      | Some r \<Rightarrow> Some (bindE r (fallback_to_grid max_feasible_cities city_radius width height)))"

text \<open>Lines 169 to 194: connection points, inter-city lines, inner cities, stations and
  the repair of the transitions.\<close>

definition build_network ::
  "'g flatland \<Rightarrow> SparseRailGen \<Rightarrow> int \<Rightarrow> int \<Rightarrow> 'g \<Rightarrow> int list list \<Rightarrow> placement
     \<Rightarrow> py_exception + 'g rail_product" where
  "build_network E self width height grid0 vector_field0 s =
     (let city_positions = fst s;
          city_radius = city_radius_of self
      in bindE (generate_city_connection_points E (grid_mode self) city_positions city_radius
                  vector_field0 (rails_between_cities_of self) (rail_pairs_in_city_of self)
                  (fst (snd s))) (\<lambda>cp.
         bindE (connect_cities E city_positions (cp_outer cp) (cp_cells cp) grid0) (\<lambda>lines.
         bindE (build_inner_cities E city_positions (cp_inner cp) (cp_outer cp) (out_grid lines))
           (\<lambda>(free_rails, grid1).
         bindE (set_trainstation_positions city_positions city_radius free_rails)
           (\<lambda>train_stations.
         bindE (fix_transitions_pass E (cp_cells cp) (out_paths lines) grid1 (cp_vector_field cp)
                  height width) (\<lambda>grid2.
           Inr \<lparr>product_grid = grid2,
                hint_city_positions = city_positions,
                hint_train_stations = train_stations,
                hint_city_orientations = cp_orientations cp,
                product_warnings = snd (snd s) @ out_warnings lines\<rparr>))))))"

definition generate ::
  "'g flatland \<Rightarrow> SparseRailGen \<Rightarrow> int \<Rightarrow> int \<Rightarrow> int \<Rightarrow> int \<Rightarrow> RandomState option \<Rightarrow> RandomState
     \<Rightarrow> (py_exception + 'g rail_product) option" where
  "generate E self width height num_agents num_resets np_random ambient =
     (case choose_random_state E self np_random ambient of
        Inl e \<Rightarrow> Some (Inl e)
      | Inr np_random0 \<Rightarrow>
          let grid0 = GridTransitionMap E width height
          in case np_zeros2 height width of
               Inl e \<Rightarrow> Some (Inl e)
             | Inr zeros \<Rightarrow>
                 let vector_field0 = map (map (\<lambda>x. x - 1)) zeros;
                     max_feasible_cities = max_feasible_cities_of self width height
                 in if max_feasible_cities < 2 then Some (Inl InfeasibleLayout)
                    else
                      (case place_cities self max_feasible_cities (city_radius_of self) width
                              height np_random0 of
                         None \<Rightarrow> None
                       | Some (Inl e) \<Rightarrow> Some (Inl e)
                       | Some (Inr s) \<Rightarrow>
                           Some (build_network E self width height grid0 vector_field0 s)))"

section \<open>Predicates of the properties, and an environment to run the model\<close>

text \<open>A city with orientation \<open>d\<close> has two active sides when \<open>d\<close> and the side opposite
  carry the same even, positive number \<open>2 * k\<close> of inner points, \<open>k\<close> within the configured
  pairs of rails, and the two other sides carry none.\<close>

definition two_active_sides :: "int \<Rightarrow> pos list list \<Rightarrow> nat \<Rightarrow> bool" where
  "two_active_sides rail_pairs inner d \<longleftrightarrow>
     d < 4 \<and> length inner = 4 \<and>
     (\<exists>k. 1 \<le> k \<and> k \<le> rail_pairs \<and>
        (\<forall>side < 4. length (inner ! side)
             = (if side = d \<or> side = (d + 2) mod 4 then nat (2 * k) else 0)))"

definition chebyshev :: "pos \<Rightarrow> pos \<Rightarrow> int" where
  "chebyshev a b = max \<bar>fst a - fst b\<bar> \<bar>snd a - snd b\<bar>"

text \<open>A step that does not raise the error of an infeasible layout: it returns, or raises
  something else.\<close>

definition not_infeasible :: "py_exception + 'a \<Rightarrow> bool" where
  "not_infeasible m \<longleftrightarrow> m \<noteq> Inl InfeasibleLayout"

text \<open>The placement after \<open>n\<close> repetitions of \<open>place\<close>, each from the generator state the
  attempt before left, with the warnings of all attempts.\<close>

fun nth_attempt ::
  "(RandomState \<Rightarrow> py_exception + placement) \<Rightarrow> placement \<Rightarrow> nat \<Rightarrow> py_exception + placement"
where
  "nth_attempt place s 0 = Inr s"
| "nth_attempt place s (Suc n) =
     bindE (nth_attempt place s n) (\<lambda>s1.
     bindE (place (fst (snd s1))) (\<lambda>s'.
       Inr (fst s', fst (snd s'), snd (snd s1) @ snd (snd s'))))"

text \<open>Attempt \<open>n\<close> is the first one without cliques: it gives the placement \<open>r\<close>, and every
  attempt before it was made and has a clique.\<close>

definition first_clique_free ::
  "(RandomState \<Rightarrow> py_exception + placement) \<Rightarrow> placement \<Rightarrow> nat \<Rightarrow> placement \<Rightarrow> bool" where
  "first_clique_free place s n r \<longleftrightarrow>
     nth_attempt place s n = Inr r \<and> contains_cliques (fst r) = Inr False \<and>
     (\<forall>k < n. \<exists>sk. nth_attempt place s k = Inr sk \<and> contains_cliques (fst sk) = Inr True)"

text \<open>What the check after a routing call says about the line it got: a warning when the
  line is empty, another when it does not run from the requested start to the requested
  end.\<close>

definition routing_warning :: "pos \<times> pos \<times> pos list \<Rightarrow> warning list" where
  "routing_warning call =
     (case call of (start, end, new_line) \<Rightarrow>
        if length new_line = 0 then [NoLineAdded]
        else if last new_line \<noteq> end \<or> hd new_line \<noteq> start then [UnableToConnect]
        else [])"

text \<open>The same library with a grid that also keeps the log of the routing calls made on
  it: start, end and the line returned, in the order of the calls.\<close>

definition with_call_log :: "'g flatland \<Rightarrow> ('g \<times> (pos \<times> pos \<times> pos list) list) flatland" where
  "with_call_log E =
     \<lparr>direction_to_point = direction_to_point E,
      align_cell_to_city = align_cell_to_city E,
      GridTransitionMap = (\<lambda>width height. (GridTransitionMap E width height, [])),
      connect_rail_in_grid_map =
        (\<lambda>g start end forbidden.
           let (new_line, g') = connect_rail_in_grid_map E (fst g) start end forbidden
           in (new_line, (g', snd g @ [(start, end, new_line)]))),
      connect_straight_line_in_grid_map =
        (\<lambda>g start end.
           let (line, g') = connect_straight_line_in_grid_map E (fst g) start end
           in (line, (g', snd g))),
      fix_inner_nodes = (\<lambda>g p. (fix_inner_nodes E (fst g) p, snd g)),
      cell_neighbours_valid = (\<lambda>g p. cell_neighbours_valid E (fst g) p),
      fix_transitions = (\<lambda>g p orientation. (fix_transitions E (fst g) p orientation, snd g)),
      seed_state = seed_state E\<rparr>"

text \<open>A small environment in place of the flatland library, to evaluate the model on
  concrete inputs: the direction towards a point along the axis of the larger distance,
  a grid that is the list of the lines drawn on it, and routing that answers with the two
  end points of the line asked for.\<close>

definition example_direction :: "pos \<Rightarrow> pos \<Rightarrow> Grid4TransitionsEnum" where
  "example_direction pos1 pos2 =
     (let d0 = fst pos1 - fst pos2; d1 = snd pos1 - snd pos2
      in if d1 * d1 \<le> d0 * d0 then (if d0 > 0 then NORTH else SOUTH)
         else (if d1 > 0 then WEST else EAST))"

definition example_flatland :: "(pos \<times> pos) list flatland" where
  "example_flatland =
     \<lparr>direction_to_point = example_direction,
      align_cell_to_city = (\<lambda>center orientation cell. int orientation),
      GridTransitionMap = (\<lambda>width height. []),
      connect_rail_in_grid_map = (\<lambda>g start end forbidden. ([start, end], g @ [(start, end)])),
      connect_straight_line_in_grid_map = (\<lambda>g start end. ([start, end], g @ [(start, end)])),
      fix_inner_nodes = (\<lambda>g p. g),
      cell_neighbours_valid = (\<lambda>g p. True),
      fix_transitions = (\<lambda>g p orientation. g),
      seed_state = (\<lambda>sd j. nat sd + j)\<rparr>"

text \<open>The routing calls of a run of \<open>_connect_cities\<close>, in the order in which they are
  made: the start and end cells asked for and the line answered, read from the log that
  \<open>with_call_log\<close> keeps beside the grid.\<close>

definition routing_calls ::
  "'g flatland \<Rightarrow> pos list \<Rightarrow> pos list list list \<Rightarrow> pos list \<Rightarrow> 'g
     \<Rightarrow> py_exception + (pos \<times> pos \<times> pos list) list" where
  "routing_calls E city_positions connection_points forbidden_cells grid =
     map_sum id (\<lambda>out. snd (out_grid out))
       (connect_cities (with_call_log E) city_positions connection_points forbidden_cells
          (grid, []))"

text \<open>The same environment with a routing that fails: it answers with no line at every
  other call, and with a line from the end cell to the start cell at the calls between.\<close>

definition failing_flatland :: "(pos \<times> pos) list flatland" where
  "failing_flatland =
     example_flatland\<lparr>connect_rail_in_grid_map :=
       (\<lambda>g start end forbidden.
          if even (length g) then ([], g @ [(start, end)])
          else ([end, start], g @ [(start, end)]))\<rparr>"

section \<open>Properties\<close>

lemma bindE_Inl [simp]: "bindE (Inl e) f = Inl e"
  by (simp add: bindE_def)

lemma bindE_Inr [simp]: "bindE (Inr x) f = f x"
  by (simp add: bindE_def)

lemma bindE_eq_Inr: "bindE m f = Inr y \<longleftrightarrow> (\<exists>x. m = Inr x \<and> f x = Inr y)"
  by (cases m) simp_all

lemma py_index_in_range: "i < length xs \<Longrightarrow> py_index xs (int i) = Inr (xs ! i)"
  by (simp add: py_index_def)

lemma int_truediv_nonneg: "0 \<le> a \<Longrightarrow> int_truediv a b = a div b"
  by (simp add: int_truediv_def)

lemma length_inner_point_offset: "length (inner_point_offset n) = nat n"
  by (simp add: inner_point_offset_def np_abs_def np_clip_def offset_distances_def np_arange_def)

lemma inner_point_offset_nth:
  "i < nat n \<Longrightarrow> inner_point_offset n ! i =
      \<bar>int i - n div 2\<bar> + min 1 (max 0 (int i - n div 2)) + 1"
  by (simp add: inner_point_offset_def np_abs_def np_clip_def offset_distances_def np_arange_def
      int_truediv_def)

lemma inward_tmp:
  "inward_distance d cp r (tmp_coordinates d cp r off slot) = off"
  by (simp add: inward_distance_def tmp_coordinates_def)

text \<open>
  Claim C6. On an active side with \<open>n\<close> connection slots, the inner point of slot \<open>i\<close>
  (\<open>0 \<le> i < n\<close>) lies \<open>|i - n/2| + clip(i - n/2, 0, 1) + 1\<close> cells inside the border line
  of that side, with \<open>n/2\<close> the integer half of \<open>n\<close>; this offset is at least 1, so no
  slot sits on the border.
\<close>

theorem inner_offset_formula:
  assumes "i < nat n"
  shows "inward_distance d cp r (side_inner_points d cp r n n ! i)
          = \<bar>int i - n div 2\<bar> + min 1 (max 0 (int i - n div 2)) + 1
       \<and> 1 \<le> inward_distance d cp r (side_inner_points d cp r n n ! i)"
  using assms by (simp add: side_inner_points_def inward_tmp inner_point_offset_nth)

theorem inner_offset_formula_witness:
  "(3::nat) < nat 4
   \<and> inward_distance 0 (10, 10) 3 (side_inner_points 0 (10, 10) 3 4 4 ! 3) = 3
   \<and> side_inner_points 0 (10, 10) 3 4 4 ! 3 = (10, 12)"
proof -
  have "side_inner_points 0 (10, 10) 3 4 4 = [(10, 9), (9, 10), (8, 11), (10, 12)]"
    by code_simp
  then show ?thesis
    using inner_offset_formula [of 3 4 0 "(10, 10)" 3] by simp
qed

lemma station_of_track_ok:
  "t \<noteq> [] \<Longrightarrow> station_of_track t k = Inr (t ! (length t div 2), k)"
proof -
  assume "t \<noteq> []"
  then have "0 < length t" by simp
  then have "nat (int (length t) div 2) = length t div 2" "int (length t) div 2 < int (length t)"
    by (simp add: nat_div_distrib, linarith)
  then show ?thesis
    by (simp add: station_of_track_def py_index_def int_truediv_def Let_def)
qed

lemma stations_of_city_ok:
  "\<forall>t \<in> set tracks. t \<noteq> [] \<Longrightarrow>
   stations_of_city tracks n =
     Inr (map (\<lambda>k. (tracks ! k ! (length (tracks ! k) div 2), n + k)) [0..<length tracks])"
proof (induction tracks arbitrary: n)
  case Nil
  then show ?case by simp
next
  case (Cons t ts)
  have "map (\<lambda>k. ((t # ts) ! k ! (length ((t # ts) ! k) div 2), n + k)) [0..<Suc (length ts)]
      = (t ! (length t div 2), n) #
        map (\<lambda>k. (ts ! k ! (length (ts ! k) div 2), Suc n + k)) [0..<length ts]"
    by (simp only: map_upt_Suc) simp
  moreover have "stations_of_city ts (Suc n) =
     Inr (map (\<lambda>k. (ts ! k ! (length (ts ! k) div 2), Suc n + k)) [0..<length ts])"
    using Cons by simp
  moreover have "station_of_track t n = Inr (t ! (length t div 2), n)"
    using Cons.prems by (simp add: station_of_track_ok)
  ultimately show ?case by (simp del: upt_Suc)
qed

lemma set_trainstation_loop_ok:
  assumes "\<forall>tracks \<in> set free_rails. \<forall>t \<in> set tracks. t \<noteq> []"
      and "\<forall>c \<in> set cs. c < length free_rails"
  shows "set_trainstation_loop free_rails cs =
     Inr (map (\<lambda>c. map (\<lambda>k. (free_rails ! c ! k ! (length (free_rails ! c ! k) div 2), k))
                     [0..<length (free_rails ! c)]) cs)"
  using assms
proof (induction cs)
  case Nil
  then show ?case by simp
next
  case (Cons c cs)
  then have "free_rails ! c \<in> set free_rails" by simp
  with Cons.prems have "\<forall>t \<in> set (free_rails ! c). t \<noteq> []" by blast
  from stations_of_city_ok[OF this, of 0] Cons show ?case
    by (simp add: py_index_in_range)
qed

text \<open>
  Claim C7. \<open>_set_trainstation_positions\<close> returns, for every city, one station per
  free-rail track; the station of track \<open>k\<close> is \<open>(track[len(track) // 2], k)\<close>. When every
  track is non-empty the call does not raise, each station coordinate lies on its own
  track, and \<open>len(train_stations[city])\<close> is the number of free-rail tracks of the city.
\<close>

theorem trainstations_ok:
  assumes "length city_positions \<le> length free_rails"
      and "\<forall>tracks \<in> set free_rails. \<forall>t \<in> set tracks. t \<noteq> []"
  shows "\<exists>train_stations.
     set_trainstation_positions city_positions city_radius free_rails = Inr train_stations
   \<and> length train_stations = length city_positions
   \<and> (\<forall>c < length city_positions.
        length (train_stations ! c) = length (free_rails ! c)
      \<and> (\<forall>k < length (free_rails ! c).
           train_stations ! c ! k
             = (free_rails ! c ! k ! (length (free_rails ! c ! k) div 2), k)
         \<and> fst (train_stations ! c ! k) \<in> set (free_rails ! c ! k)))"
proof -
  define sts where "sts = map (\<lambda>c. map (\<lambda>k. (free_rails ! c ! k ! (length (free_rails ! c ! k) div 2), k))
                     [0..<length (free_rails ! c)]) [0..<length city_positions]"
  have r: "\<forall>c \<in> set [0..<length city_positions]. c < length free_rails"
    using assms(1) by simp
  have run: "set_trainstation_positions city_positions city_radius free_rails = Inr sts"
    unfolding set_trainstation_positions_def sts_def
    by (rule set_trainstation_loop_ok[OF assms(2) r])
  have len: "length sts = length city_positions" by (simp add: sts_def)
  have body: "length (sts ! c) = length (free_rails ! c)
      \<and> (\<forall>k < length (free_rails ! c).
           sts ! c ! k = (free_rails ! c ! k ! (length (free_rails ! c ! k) div 2), k)
         \<and> fst (sts ! c ! k) \<in> set (free_rails ! c ! k))"
    if c: "c < length city_positions" for c
  proof -
    have row: "sts ! c = map (\<lambda>k. (free_rails ! c ! k ! (length (free_rails ! c ! k) div 2), k))
                     [0..<length (free_rails ! c)]"
      using c by (simp add: sts_def)
    have mem: "free_rails ! c \<in> set free_rails" using c assms(1) by simp
    have "free_rails ! c ! k ! (length (free_rails ! c ! k) div 2) \<in> set (free_rails ! c ! k)"
      if k: "k < length (free_rails ! c)" for k
    proof -
      have "free_rails ! c ! k \<in> set (free_rails ! c)" using k by simp
      with mem assms(2) have "free_rails ! c ! k \<noteq> []" by blast
      then have "length (free_rails ! c ! k) div 2 < length (free_rails ! c ! k)" by simp
      then show ?thesis by (rule nth_mem)
    qed
    then show ?thesis by (simp add: row)
  qed
  from run len body show ?thesis by blast
qed

theorem trainstations_ok_witness:
  "length [(5, 5) :: pos] \<le> length [[[(5, 3), (5, 4), (5, 5)], [(6, 4), (6, 5 :: int)]] :: pos list list]
   \<and> list_all (list_all (\<lambda>t. t \<noteq> [])) [[[(5, 3), (5, 4), (5, 5)], [(6, 4), (6, 5)]] :: pos list list]
   \<and> set_trainstation_positions [(5, 5)] 3 [[[(5, 3), (5, 4), (5, 5)], [(6, 4), (6, 5)]]]
       = Inr [[((5, 4), 0), ((6, 5), 1)]]"
proof -
  have ev: "set_trainstation_positions [(5, 5)] 3 [[[(5, 3), (5, 4), (5, 5)], [(6, 4), (6, 5)]]]
       = Inr [[((5, 4), 0), ((6, 5), 1)]]"
    by (simp add: set_trainstation_positions_def station_of_track_def py_index_def
        int_truediv_def)
  show ?thesis
    using ev trainstations_ok [of "[(5, 5)]" "[[[(5, 3), (5, 4), (5, 5)], [(6, 4), (6, 5)]]]" 3]
    by simp
qed

lemma broken_steps_range: "2 \<le> broken_steps d r \<and> broken_steps d r \<le> 50"
proof -
  let ?P = "\<lambda>i. cum_prob_array (1 / (10 * d)) i < r \<and> r < cum_prob_array (1 / (10 * d)) (i + 1)"
  show ?thesis
  proof (cases "find ?P [0..<49]")
    case None
    then show ?thesis by (simp add: broken_steps_def Let_def)
  next
    case (Some i)
    then have "i \<in> set [0..<49]"
      by (auto simp: find_Some_iff)
    then have "i < 49" by simp
    with Some show ?thesis by (simp add: broken_steps_def Let_def)
  qed
qed

text \<open>
  Claim C10. For every agent, distance map and random state,
  \<open>ParamMalfunctionGen.generate\<close> returns \<open>Malfunction(0)\<close> whenever \<open>agent.position\<close> is
  \<open>None\<close>, and the returned \<open>num_broken_steps\<close> is never 1: it is 0 or lies between 2 and 50.
\<close>

theorem malfunction_generate_steps:
  "(position a = None \<longrightarrow> fst (malfunction_generate distance_map np_random a) = Malfunction 0)
   \<and> (num_broken_steps (fst (malfunction_generate distance_map np_random a)) = 0
      \<or> (2 \<le> num_broken_steps (fst (malfunction_generate distance_map np_random a))
         \<and> num_broken_steps (fst (malfunction_generate distance_map np_random a)) \<le> 50))
   \<and> num_broken_steps (fst (malfunction_generate distance_map np_random a)) \<noteq> 1"
proof -
  have ne: "\<And>d r. broken_steps d r \<noteq> 1"
    using broken_steps_range by (metis numeral_le_one_iff semiring_norm(69))
  have lo: "\<And>d r. 2 \<le> broken_steps d r" and hi: "\<And>d r. broken_steps d r \<le> 50"
    using broken_steps_range by blast+
  show ?thesis
    by (simp add: malfunction_generate_def Let_def ne lo hi split: prod.splits)
qed

lemma cum_prob_array_nonneg: "0 < p \<Longrightarrow> 0 \<le> cum_prob_array p i"
  by (simp add: cum_prob_array_def)

lemma broken_steps_zero: "0 < d \<Longrightarrow> broken_steps d 0 = 2"
proof -
  assume d: "0 < d"
  have "find (\<lambda>i. cum_prob_array (1 / (10 * d)) i < 0 \<and> 0 < cum_prob_array (1 / (10 * d)) (i + 1)) [0..<49] = None"
    using cum_prob_array_nonneg[of "1 / (10 * d)"] d
    by (simp add: find_None_iff not_less)
  then show ?thesis by (simp add: broken_steps_def Let_def)
qed

theorem malfunction_generate_steps_witness:
  "position \<lparr>position = None, initial_position = Some (3, 4), get_travel_time_on_shortest_path = (\<lambda>_::unit. 7)\<rparr> = None
   \<and> fst (malfunction_generate () (\<lambda>_. 0) \<lparr>position = None, initial_position = Some (3, 4), get_travel_time_on_shortest_path = (\<lambda>_::unit. 7)\<rparr>) = Malfunction 0
   \<and> fst (malfunction_generate () (\<lambda>_. 0) \<lparr>position = Some (3, 4), initial_position = Some (3, 4), get_travel_time_on_shortest_path = (\<lambda>_::unit. 7)\<rparr>) = Malfunction 2"
proof -
  have "fst (malfunction_generate () (\<lambda>_. 0) \<lparr>position = Some (3, 4), initial_position = Some (3, 4), get_travel_time_on_shortest_path = (\<lambda>_::unit. 7)\<rparr>) = Malfunction 2"
    by (simp add: malfunction_generate_def random_sample_def malfunction_params_def broken_steps_zero upt_conv_Cons)
  then show ?thesis
    using malfunction_generate_steps [of "\<lparr>position = None, initial_position = Some (3, 4), get_travel_time_on_shortest_path = (\<lambda>_::unit. 7)\<rparr>" "()" "\<lambda>_. 0"]
    by simp
qed

lemma bindE_InrE:
  assumes "bindE m f = Inr y"
  obtains x where "m = Inr x" "f x = Inr y"
  using assms by (cases m) simp_all

lemma dir_value_less4: "dir_value d < 4"
  by (cases d) simp_all

lemma randint_range:
  "randint rs lo hi = Inr (k, rs') \<Longrightarrow> lo \<le> k \<and> k < hi"
proof -
  assume a: "randint rs lo hi = Inr (k, rs')"
  then have lt: "lo < hi" and k: "k = lo + int (rs 0) mod (hi - lo)"
    by (auto simp: randint_def split: if_splits)
  have "0 \<le> int (rs 0) mod (hi - lo)" "int (rs 0) mod (hi - lo) < hi - lo"
    using lt by simp_all
  with k show ?thesis by linarith
qed

lemma length_side_inner_points [simp]:
  "length (side_inner_points d cp r n c) = nat c"
  by (simp add: side_inner_points_def Let_def)

lemma city_connection_points_sides:
  assumes "city_connection_points E gm ps r rp p vf rs = Inr (inner, outer, d, cells, vf', rs')"
  shows "two_active_sides rp inner d"
proof -
  from assms obtain d0 rs1 where
    dir: "(if gm then bindE (randint rs 0 4) (\<lambda>(d, np_random'). Inr (nat d, np_random'))
           else bindE (py_index (argsort (map (get_manhattan_distance p) ps)) 1) (\<lambda>idx.
                bindE (py_index ps (int idx)) (\<lambda>neighbour.
                  Inr (dir_value (direction_to_point E p neighbour), rs)))) = Inr (d0, rs1)"
    and rest: "bindE (get_cells_in_city E p r d0 vf) (\<lambda>(cells, vector_field').
                 bindE (randint rs1 1 (rp + 1)) (\<lambda>(k, np_random2).
                   Inr (map (\<lambda>direction. side_inner_points direction p r (k * 2)
                                (map (\<lambda>direction. if direction \<in> set [d0, (d0 + 2) mod 4]
                                            then k * 2 else 0) [0..<4] ! direction)) [0..<4],
                        map (\<lambda>direction. side_outer_points direction p r (k * 2)
                                (map (\<lambda>direction. if direction \<in> set [d0, (d0 + 2) mod 4]
                                            then k * 2 else 0) [0..<4] ! direction)) [0..<4],
                        d0, cells, vector_field', np_random2))) = Inr (inner, outer, d, cells, vf', rs')"
    unfolding city_connection_points_def Let_def
    by (auto elim!: bindE_InrE)
  have d0: "d0 < 4"
  proof (cases gm)
    case True
    with dir obtain k where "randint rs 0 4 = Inr (k, rs1)" "d0 = nat k"
      by (auto elim!: bindE_InrE)
    then show ?thesis using randint_range[of rs 0 4 k rs1] by auto
  next
    case False
    with dir show ?thesis by (auto elim!: bindE_InrE simp: dir_value_less4)
  qed
  from rest obtain cs vf1 k rs2 where
    k: "randint rs1 1 (rp + 1) = Inr (k, rs2)"
    and inner: "inner = map (\<lambda>direction. side_inner_points direction p r (k * 2)
                                (map (\<lambda>direction. if direction \<in> set [d0, (d0 + 2) mod 4]
                                            then k * 2 else 0) [0..<4] ! direction)) [0..<4]"
    and d: "d = d0"
    by (auto elim!: bindE_InrE)
  from randint_range[OF k] have kr: "1 \<le> k" "k \<le> rp" by auto
  have "\<forall>side < 4. length (inner ! side)
                 = (if side = d \<or> side = (d + 2) mod 4 then nat (2 * k) else 0)"
    unfolding inner d by (auto simp: mult.commute)
  with kr d0 d inner show ?thesis unfolding two_active_sides_def by auto
qed


lemma connection_points_loop_sides:
  assumes "connection_points_loop E gm ps r rp cities acc = Inr cp"
  shows "\<exists>new_inner new_or.
           cp_inner cp = cp_inner acc @ new_inner
         \<and> cp_orientations cp = cp_orientations acc @ new_or
         \<and> length new_inner = length cities \<and> length new_or = length cities
         \<and> (\<forall>c < length cities. two_active_sides rp (new_inner ! c) (new_or ! c))"
  using assms
proof (induction cities arbitrary: acc)
  case Nil
  then show ?case by simp
next
  case (Cons p cities)
  from Cons.prems obtain inner outer d cells vf' rs' where
    city: "city_connection_points E gm ps r rp p (cp_vector_field acc) (cp_rng acc)
             = Inr (inner, outer, d, cells, vf', rs')"
    and rest: "connection_points_loop E gm ps r rp cities
            \<lparr>cp_inner = cp_inner acc @ [inner],
             cp_outer = cp_outer acc @ [outer],
             cp_orientations = cp_orientations acc @ [d],
             cp_cells = cp_cells acc @ cells,
             cp_vector_field = vf',
             cp_rng = rs'\<rparr> = Inr cp"
    by (auto elim!: bindE_InrE)
  from Cons.IH[OF rest] obtain ni no where
    ni: "cp_inner cp = (cp_inner acc @ [inner]) @ ni"
    and no: "cp_orientations cp = (cp_orientations acc @ [d]) @ no"
    and len: "length ni = length cities" "length no = length cities"
    and ok: "\<forall>c < length cities. two_active_sides rp (ni ! c) (no ! c)"
    by auto
  have ok0: "two_active_sides rp inner d"
    by (rule city_connection_points_sides[OF city])
  have "\<forall>c < length (p # cities). two_active_sides rp ((inner # ni) ! c) ((d # no) ! c)"
    using ok ok0 by (auto simp: nth_Cons split: nat.splits)
  with ni no len show ?case
    by (intro exI[of _ "inner # ni"] exI[of _ "d # no"]) simp
qed

lemma two_active_sides_card:
  assumes "two_active_sides rp inner d"
  shows "card {side. side < 4 \<and> inner ! side \<noteq> []} = 2"
proof -
  from assms obtain k where d: "d < 4" and k: "1 \<le> k"
    and len: "\<forall>side < 4. length (inner ! side)
                 = (if side = d \<or> side = (d + 2) mod 4 then nat (2 * k) else 0)"
    unfolding two_active_sides_def by auto
  have "{side. side < 4 \<and> inner ! side \<noteq> []} = {d, (d + 2) mod 4}"
  proof (rule set_eqI)
    fix side
    show "side \<in> {side. side < 4 \<and> inner ! side \<noteq> []} \<longleftrightarrow> side \<in> {d, (d + 2) mod 4}"
    proof (cases "side < 4")
      case True
      with len have "length (inner ! side)
                 = (if side = d \<or> side = (d + 2) mod 4 then nat (2 * k) else 0)" by blast
      moreover have "inner ! side \<noteq> [] \<longleftrightarrow> 0 < length (inner ! side)" by simp
      moreover have "0 < nat (2 * k)" using k by simp
      ultimately have "inner ! side \<noteq> [] \<longleftrightarrow> side = d \<or> side = (d + 2) mod 4"
        by presburger
      with True show ?thesis by simp
    next
      case False
      with d show ?thesis by auto
    qed
  qed
  moreover have "d \<noteq> (d + 2) mod 4" using d by presburger
  ultimately show ?thesis by simp
qed

text \<open>
  Claim C5. For every city that \<open>_generate_city_connection_points\<close> produces, exactly 2 of
  the 4 sides, the orientation side and its opposite, receive inner connection points;
  both receive the same even number \<open>randint(1, rail_pairs_in_city + 1) * 2\<close> of points, and
  the other two sides receive none.
\<close>

theorem connection_points_two_sides:
  assumes "generate_city_connection_points E gm ps r vf rb rp rs = Inr cp"
  shows "length (cp_inner cp) = length ps \<and> length (cp_orientations cp) = length ps
       \<and> (\<forall>c < length ps.
             two_active_sides rp (cp_inner cp ! c) (cp_orientations cp ! c)
           \<and> card {side. side < 4 \<and> cp_inner cp ! c ! side \<noteq> []} = 2)"
proof -
  from connection_points_loop_sides[OF assms[unfolded generate_city_connection_points_def]]
  have len: "length (cp_inner cp) = length ps" "length (cp_orientations cp) = length ps"
    and ok: "\<forall>c < length ps. two_active_sides rp (cp_inner cp ! c) (cp_orientations cp ! c)"
    by auto
  with two_active_sides_card show ?thesis by blast
qed

theorem connection_points_two_sides_witness:
  "\<exists>cp. generate_city_connection_points example_flatland False [(4, 4), (4, 13), (4, 22)] 3
            (replicate 10 (replicate 27 (- 1))) 2 1 (\<lambda>_. 0) = Inr cp
      \<and> cp_orientations cp = [1, 3, 3]
      \<and> map (map length) (cp_inner cp) = [[0, 2, 0, 2], [0, 2, 0, 2], [0, 2, 0, 2]]
      \<and> two_active_sides 1 (cp_inner cp ! 0) 1
      \<and> card {side. side < 4 \<and> cp_inner cp ! 0 ! side \<noteq> []} = 2"
proof -
  have "map_sum id (\<lambda>cp. (cp_orientations cp, map (map length) (cp_inner cp)))
          (generate_city_connection_points example_flatland False [(4, 4), (4, 13), (4, 22)] 3
            (replicate 10 (replicate 27 (- 1))) 2 1 (\<lambda>_. 0))
        = Inr ([1, 3, 3], [[0, 2, 0, 2], [0, 2, 0, 2], [0, 2, 0, 2]])"
    by code_simp
  then obtain cp where
    cp: "generate_city_connection_points example_flatland False [(4, 4), (4, 13), (4, 22)] 3
            (replicate 10 (replicate 27 (- 1))) 2 1 (\<lambda>_. 0) = Inr cp"
    and vals: "cp_orientations cp = [1, 3, 3]"
       "map (map length) (cp_inner cp) = [[0, 2, 0, 2], [0, 2, 0, 2], [0, 2, 0, 2]]"
    by (cases "generate_city_connection_points example_flatland False [(4, 4), (4, 13), (4, 22)] 3
            (replicate 10 (replicate 27 (- 1))) 2 1 (\<lambda>_. 0)") auto
  from connection_points_two_sides[OF cp] vals
  have "two_active_sides 1 (cp_inner cp ! 0) 1"
       "card {side. side < 4 \<and> cp_inner cp ! 0 ! side \<noteq> []} = 2"
    by auto
  with cp vals show ?thesis by (intro exI[of _ cp]) simp
qed

lemma length_set_slice [simp]: "length (set_slice xs a b f) = length xs"
  by (simp add: set_slice_def)

lemma nth_set_slice:
  "j < length xs \<Longrightarrow> set_slice xs a b f ! j =
     (if slice_bound (length xs) a \<le> j \<and> j < slice_bound (length xs) b then f (xs ! j) else xs ! j)"
  by (simp add: set_slice_def nth_enumerate_eq)

lemma length_set_block [simp]: "length (set_block g r0 r1 c0 c1 v) = length g"
  by (simp add: set_block_def)

lemma length_nth_set_block [simp]:
  "i < length g \<Longrightarrow> length (set_block g r0 r1 c0 c1 v ! i) = length (g ! i)"
  by (simp add: set_block_def nth_set_slice)

lemma nth_set_block:
  "i < length g \<Longrightarrow> j < length (g ! i) \<Longrightarrow>
   set_block g r0 r1 c0 c1 v ! i ! j =
     (if slice_bound (length g) r0 \<le> i \<and> i < slice_bound (length g) r1
         \<and> slice_bound (length (g ! i)) c0 \<le> j \<and> j < slice_bound (length (g ! i)) c1
      then v else g ! i ! j)"
  by (simp add: set_block_def nth_set_slice)

lemma where_row:
  "(i', j) \<in> set (map (\<lambda>(j, x). (i, j)) (filter (\<lambda>(j, x). x = v) (enumerate 0 row)))
     \<longleftrightarrow> i' = i \<and> j < length row \<and> row ! j = v"
proof
  assume "(i', j) \<in> set (map (\<lambda>(j, x). (i, j)) (filter (\<lambda>(j, x). x = v) (enumerate 0 row)))"
  then obtain x where "(j, x) \<in> set (enumerate 0 row)" "x = v" "i' = i"
    by auto
  then show "i' = i \<and> j < length row \<and> row ! j = v"
    by (simp add: in_set_enumerate_eq)
next
  assume a: "i' = i \<and> j < length row \<and> row ! j = v"
  then have "(j, v) \<in> set (filter (\<lambda>(j, x). x = v) (enumerate 0 row))"
    by (simp add: in_set_enumerate_eq)
  then show "(i', j) \<in> set (map (\<lambda>(j, x). (i, j)) (filter (\<lambda>(j, x). x = v) (enumerate 0 row)))"
    unfolding set_map using a by (intro image_eqI[where x="(j, v)"]) simp_all
qed

lemma np_where_eq_iff:
  "(i, j) \<in> set (np_where_eq g v) \<longleftrightarrow> i < length g \<and> j < length (g ! i) \<and> g ! i ! j = v"
proof -
  have "(i, j) \<in> set (np_where_eq g v) \<longleftrightarrow>
        (\<exists>p \<in> set (enumerate 0 g).
           (i, j) \<in> set (map (\<lambda>(j, x). (fst p, j)) (filter (\<lambda>(j, x). x = v) (enumerate 0 (snd p)))))"
    unfolding np_where_eq_def by (simp add: split_def)
  also have "\<dots> \<longleftrightarrow> (\<exists>p \<in> set (enumerate 0 g). i = fst p \<and> j < length (snd p) \<and> snd p ! j = v)"
    unfolding where_row ..
  also have "\<dots> \<longleftrightarrow> i < length g \<and> j < length (g ! i) \<and> g ! i ! j = v"
  proof
    assume "\<exists>p \<in> set (enumerate 0 g). i = fst p \<and> j < length (snd p) \<and> snd p ! j = v"
    then obtain k row where "(k, row) \<in> set (enumerate 0 g)" "i = k" "j < length row" "row ! j = v"
      by auto
    then show "i < length g \<and> j < length (g ! i) \<and> g ! i ! j = v"
      by (simp add: in_set_enumerate_eq)
  next
    assume a: "i < length g \<and> j < length (g ! i) \<and> g ! i ! j = v"
    then have "(i, g ! i) \<in> set (enumerate 0 g)" by (simp add: in_set_enumerate_eq)
    with a show "\<exists>p \<in> set (enumerate 0 g). i = fst p \<and> j < length (snd p) \<and> snd p ! j = v"
      by (intro bexI[where x="(i, g ! i)"]) simp_all
  qed
  finally show ?thesis .
qed


lemma py_index_mem: "py_index xs i = Inr x \<Longrightarrow> x \<in> set xs"
  by (auto simp: py_index_def split: if_splits intro!: nth_mem)

lemma chebyshev_commute: "chebyshev a b = chebyshev b a"
  by (simp add: chebyshev_def abs_minus_commute)

lemma chebyshev_nonneg: "0 \<le> chebyshev a b"
  by (simp add: chebyshev_def)

lemma blocked_cell:
  assumes "1 \<le> p" "i < length g" "j < length (g ! i)" "0 \<le> row" "0 \<le> col"
      and "\<bar>int i - row\<bar> \<le> 2 * p" "\<bar>int j - col\<bar> \<le> 2 * p"
  shows "set_block g (max 0 (row - 2 * p)) (row + 2 * p + 1)
           (max 0 (col - 2 * p)) (col + 2 * p + 1) (0::nat) ! i ! j = 0"
proof -
  have "slice_bound (length g) (max 0 (row - 2 * p)) \<le> i"
    using assms by (simp add: slice_bound_def; linarith)
  moreover have "i < slice_bound (length g) (row + 2 * p + 1)"
    using assms by (simp add: slice_bound_def; linarith)
  moreover have "slice_bound (length (g ! i)) (max 0 (col - 2 * p)) \<le> j"
    using assms by (simp add: slice_bound_def; linarith)
  moreover have "j < slice_bound (length (g ! i)) (col + 2 * p + 1)"
    using assms by (simp add: slice_bound_def; linarith)
  ultimately show ?thesis using assms(2,3) by (simp add: nth_set_block)
qed

lemma still_allowed:
  assumes "i < length g" "j < length (g ! i)"
      and "set_block g r0 r1 c0 c1 (0::nat) ! i ! j = 1"
  shows "g ! i ! j = 1"
  using assms by (simp add: nth_set_block split: if_splits)

lemma place_random_loop_separated:
  assumes "place_random_loop k p g rs acc = Inr (ps, rs')"
      and "\<forall>i j q. i < length g \<and> j < length (g ! i) \<and> g ! i ! j = 1 \<and> q \<in> set acc
              \<longrightarrow> 2 * p - 1 \<le> chebyshev (int i, int j) q"
      and "\<forall>a b. a < b \<and> b < length acc \<longrightarrow> 2 * p - 1 \<le> chebyshev (acc ! a) (acc ! b)"
  shows "\<forall>a b. a < b \<and> b < length ps \<longrightarrow> 2 * p - 1 \<le> chebyshev (ps ! a) (ps ! b)"
  using assms
proof (induction k arbitrary: g rs acc)
  case 0
  then show ?case by simp
next
  case (Suc k)
  show ?case
  proof (cases "np_where_eq g 1 = []")
    case True
    with Suc.prems show ?thesis by (simp add: Let_def)
  next
    case False
    from Suc.prems(1) False obtain point_index rs1 r c where
      draw: "randint rs 0 (int (length (np_where_eq g 1))) = Inr (point_index, rs1)"
      and pick: "py_index (np_where_eq g 1) point_index = Inr (r, c)"
      and rest: "place_random_loop k p
                   (set_block g (max 0 (int r - 2 * p)) (int r + 2 * p + 1)
                      (max 0 (int c - 2 * p)) (int c + 2 * p + 1) 0)
                   rs1 (acc @ [(int r, int c)]) = Inr (ps, rs')"
      by (auto simp: Let_def bindE_eq_Inr)
    from pick have "(r, c) \<in> set (np_where_eq g 1)"
      by (rule py_index_mem)
    then have rc: "r < length g" "c < length (g ! r)" "g ! r ! c = 1"
      by (simp_all add: np_where_eq_iff)
    let ?g' = "set_block g (max 0 (int r - 2 * p)) (int r + 2 * p + 1)
                      (max 0 (int c - 2 * p)) (int c + 2 * p + 1) (0::nat)"
    have inv1: "\<forall>i j q. i < length ?g' \<and> j < length (?g' ! i) \<and> ?g' ! i ! j = 1
                  \<and> q \<in> set (acc @ [(int r, int c)])
              \<longrightarrow> 2 * p - 1 \<le> chebyshev (int i, int j) q"
    proof (intro allI impI)
      fix i j q
      assume a: "i < length ?g' \<and> j < length (?g' ! i) \<and> ?g' ! i ! j = 1
                  \<and> q \<in> set (acc @ [(int r, int c)])"
      then have i: "i < length g" by simp
      with a have j: "j < length (g ! i)" by simp
      note ij = i j
      from a have "?g' ! i ! j = 1" by blast
      with ij have old: "g ! i ! j = 1" by (rule still_allowed)
      show "2 * p - 1 \<le> chebyshev (int i, int j) q"
      proof (cases "q \<in> set acc")
        case True
        with Suc.prems(2) ij old show ?thesis by blast
      next
        case False
        with a have q: "q = (int r, int c)" by simp
        show ?thesis
        proof (cases "1 \<le> p")
          case True
          have "\<not> (\<bar>int i - int r\<bar> \<le> 2 * p \<and> \<bar>int j - int c\<bar> \<le> 2 * p)"
          proof
            assume "\<bar>int i - int r\<bar> \<le> 2 * p \<and> \<bar>int j - int c\<bar> \<le> 2 * p"
            with blocked_cell[OF True ij, of "int r" "int c"] have "?g' ! i ! j = 0" by simp
            with a show False by simp
          qed
          then show ?thesis unfolding q chebyshev_def by (simp add: max_def) linarith
        next
          case False
          with chebyshev_nonneg[of "(int i, int j)" q] show ?thesis by linarith
        qed
      qed
    qed
    have inv2: "\<forall>a b. a < b \<and> b < length (acc @ [(int r, int c)])
                  \<longrightarrow> 2 * p - 1 \<le> chebyshev ((acc @ [(int r, int c)]) ! a) ((acc @ [(int r, int c)]) ! b)"
    proof (intro allI impI)
      fix a b
      assume ab: "a < b \<and> b < length (acc @ [(int r, int c)])"
      show "2 * p - 1 \<le> chebyshev ((acc @ [(int r, int c)]) ! a) ((acc @ [(int r, int c)]) ! b)"
      proof (cases "b < length acc")
        case True
        with ab Suc.prems(3) show ?thesis by (simp add: nth_append)
      next
        case False
        with ab have b: "b = length acc" and a: "a < length acc" by simp_all
        then have "acc ! a \<in> set acc" by simp
        with Suc.prems(2) rc have "2 * p - 1 \<le> chebyshev (int r, int c) (acc ! a)" by blast
        then show ?thesis using a b by (simp add: nth_append chebyshev_commute)
      qed
    qed
    from Suc.IH[OF rest inv1 inv2] show ?thesis .
  qed
qed

lemma random_positions_separated:
  assumes "generate_random_city_positions n r w h rs = Inr (ps, rs', ws)"
      and "a < b" "b < length ps"
  shows "2 * r + 1 \<le> chebyshev (ps ! a) (ps ! b)"
proof -
  from assms(1) obtain g0 where
    loop: "place_random_loop (nat n) (r + 1)
             (set_block g0 (r + 1) (- (r + 1)) (r + 1) (- (r + 1)) 1) rs [] = Inr (ps, rs')"
    by (auto simp: generate_random_city_positions_def Let_def bindE_eq_Inr)
  from place_random_loop_separated[OF loop] assms(2,3)
  have "2 * (r + 1) - 1 \<le> chebyshev (ps ! a) (ps ! b)" by simp
  then show ?thesis by simp
qed



lemma length_np_linspace_int:
  "np_linspace_int start stop num = Inr xs \<Longrightarrow> 0 \<le> num \<and> length xs = nat num"
  by (auto simp: np_linspace_int_def Let_def split: if_splits)

lemma np_linspace_int_nth:
  assumes "np_linspace_int start stop num = Inr xs" "0 \<le> start" "start \<le> stop" "i < nat num"
  shows "xs ! i = \<lfloor>real_of_int start
                   + real i * ((real_of_int stop - real_of_int start) / real_of_int (num - 1))\<rfloor>"
proof (cases "num = 1")
  case True
  with assms show ?thesis by (auto simp: np_linspace_int_def)
next
  case False
  with assms(4) have num: "2 \<le> num" by linarith
  let ?step = "(real_of_int stop - real_of_int start) / real_of_int (num - 1)"
  have step: "0 \<le> ?step" using assms(3) num by simp
  from assms(1) num have xs: "xs = map (\<lambda>i. int_of_float (real i * ?step + real_of_int start))
                                 [0..<nat (num - 1)] @ [stop]"
    by (simp add: np_linspace_int_def Let_def)
  show ?thesis
  proof (cases "i < nat (num - 1)")
    case True
    have "0 \<le> real i * ?step" using step by (intro mult_nonneg_nonneg) simp_all
    moreover have "0 \<le> real_of_int start" using assms(2) by simp
    ultimately have "0 \<le> real i * ?step + real_of_int start" by linarith
    then have "int_of_float (real i * ?step + real_of_int start)
                 = \<lfloor>real i * ?step + real_of_int start\<rfloor>"
      by (simp add: int_of_float_def)
    with True show ?thesis by (simp add: xs nth_append add.commute)
  next
    case False
    with assms(4) have i: "i = nat (num - 1)" by linarith
    then have "real i = real_of_int (num - 1)" using num by simp
    then have "real i * ?step = real_of_int stop - real_of_int start" using num by simp
    then have "\<lfloor>real_of_int start + real i * ?step\<rfloor> = stop" by simp
    moreover have "xs ! i = stop" by (simp add: xs i nth_append)
    ultimately show ?thesis by simp
  qed
qed

lemma np_linspace_int_spread:
  assumes lin: "np_linspace_int start stop num = Inr xs"
      and "0 \<le> start" "0 \<le> cs" "cs * (num - 1) \<le> stop - start"
      and ij: "i < j" "j < nat num"
  shows "xs ! i + cs \<le> xs ! j"
proof -
  from ij have num: "2 \<le> num" by linarith
  let ?step = "(real_of_int stop - real_of_int start) / real_of_int (num - 1)"
  have le: "start \<le> stop"
  proof -
    have "0 \<le> cs * (num - 1)" using assms(3) num by simp
    with assms(4) show ?thesis by linarith
  qed
  have "real_of_int cs * real_of_int (num - 1) \<le> real_of_int stop - real_of_int start"
    using assms(4) by (simp only: of_int_diff[symmetric] of_int_mult[symmetric] of_int_le_iff)
  then have step: "real_of_int cs \<le> ?step"
    using num by (simp add: pos_le_divide_eq)
  have step0: "0 \<le> ?step" using step assms(3) by linarith
  have "real i + 1 \<le> real j" using ij(1) by linarith
  then have "(real i + 1) * ?step \<le> real j * ?step"
    using step0 by (rule mult_right_mono)
  moreover have "(real i + 1) * ?step = real i * ?step + ?step"
    by (simp only: distrib_right mult_1)
  ultimately have "real i * ?step + real_of_int cs \<le> real j * ?step"
    using step by linarith
  then have "\<lfloor>real_of_int start + real i * ?step + real_of_int cs\<rfloor>
               \<le> \<lfloor>real_of_int start + real j * ?step\<rfloor>"
    by (intro floor_mono) linarith
  then have "\<lfloor>real_of_int start + real i * ?step\<rfloor> + cs
               \<le> \<lfloor>real_of_int start + real j * ?step\<rfloor>"
    by simp
  moreover have "xs ! i = \<lfloor>real_of_int start + real i * ?step\<rfloor>"
    using np_linspace_int_nth[OF lin assms(2) le] ij by simp
  moreover have "xs ! j = \<lfloor>real_of_int start + real j * ?step\<rfloor>"
    using np_linspace_int_nth[OF lin assms(2) le] ij by simp
  ultimately show ?thesis by simp
qed

lemma np_linspace_int_apart:
  assumes lin: "np_linspace_int start stop num = Inr xs"
      and "0 \<le> start" "0 \<le> cs" "cs * (num - 1) \<le> stop - start"
      and ij: "i \<noteq> j" "i < nat num" "j < nat num"
  shows "cs \<le> \<bar>xs ! i - xs ! j\<bar>"
proof (cases "i < j")
  case True
  from np_linspace_int_spread[OF lin assms(2,3,4) True ij(3)] show ?thesis by linarith
next
  case False
  with ij have "j < i" by simp
  from np_linspace_int_spread[OF lin assms(2,3,4) this ij(2)] show ?thesis by linarith
qed

lemma evenly_loop_nth:
  assumes "evenly_loop rows cols cpr idxs = Inr ps"
  shows "length ps = length idxs \<and>
         (\<forall>k < length idxs.
            py_index rows (int (idxs ! k) mod cpr) = Inr (fst (ps ! k))
          \<and> py_index cols (int (idxs ! k) div cpr) = Inr (snd (ps ! k)))"
  using assms
proof (induction idxs arbitrary: ps)
  case Nil
  then show ?case by simp
next
  case (Cons x idxs)
  from Cons.prems obtain row col rest where
    r: "py_index rows (int x mod cpr) = Inr row" and c: "py_index cols (int x div cpr) = Inr col"
    and rest: "evenly_loop rows cols cpr idxs = Inr rest" and ps: "ps = (row, col) # rest"
    by (auto simp: bindE_eq_Inr)
  from Cons.IH[OF rest] r c ps show ?case
    by (auto simp: nth_Cons split: nat.splits)
qed


lemma evenly_unfold:
  assumes "generate_evenly_distr_city_positions n r w h = Inr ps"
  obtains cpr cpc rows cols where
    "2 * (r + 1) \<noteq> 0" "cpr \<noteq> 0"
    "cpr \<le> (h - 2) div (2 * (r + 1))" "cpc \<le> (w - 2) div (2 * (r + 1))"
    "np_linspace_int (r + 2) (h - (r + 2)) cpr = Inr rows"
    "np_linspace_int (r + 2) (w - (r + 2)) cpc = Inr cols"
    "evenly_loop rows cols cpr [0..<nat (min n (cpc * cpr))] = Inr ps"
proof -
  let ?cpr = "cities_per_row n r w h"
  let ?cpc = "cities_per_col n r w h"
  from assms have cs: "2 * (r + 1) \<noteq> 0" and cpr: "?cpr \<noteq> 0"
    and run: "bindE (np_linspace_int (r + 2) (h - (r + 2)) ?cpr) (\<lambda>row_positions.
              bindE (np_linspace_int (r + 2) (w - (r + 2)) ?cpc) (\<lambda>col_positions.
                evenly_loop row_positions col_positions ?cpr
                  [0..<nat (min n (?cpc * ?cpr))])) = Inr ps"
    unfolding generate_evenly_distr_city_positions_def Let_def
    by (simp_all split: if_splits)
  from run obtain rows cols where
    "np_linspace_int (r + 2) (h - (r + 2)) ?cpr = Inr rows"
    "np_linspace_int (r + 2) (w - (r + 2)) ?cpc = Inr cols"
    "evenly_loop rows cols ?cpr [0..<nat (min n (?cpc * ?cpr))] = Inr ps"
    by (auto simp: bindE_eq_Inr)
  moreover have "?cpr \<le> (h - 2) div (2 * (r + 1))"
    by (simp add: cities_per_row_def Let_def)
  moreover have "?cpc \<le> (w - 2) div (2 * (r + 1))"
    by (simp add: cities_per_col_def Let_def)
  ultimately show ?thesis using cs cpr
    by (intro that[of ?cpr ?cpc rows cols])
qed

lemma py_index_nonneg:
  "py_index xs i = Inr x \<Longrightarrow> 0 \<le> i \<Longrightarrow> i < int (length xs) \<and> x = xs ! nat i"
  by (auto simp: py_index_def split: if_splits)

lemma evenly_positions_separated:
  assumes run: "generate_evenly_distr_city_positions n r w h = Inr ps"
      and ab: "a < b" "b < length ps"
  shows "2 * r + 1 \<le> chebyshev (ps ! a) (ps ! b)"
proof (cases "0 \<le> r")
  case False
  with chebyshev_nonneg[of "ps ! a" "ps ! b"] show ?thesis by linarith
next
  case True
  let ?cs = "2 * (r + 1)"
  from run obtain cpr cpc rows cols where
    cpr0: "cpr \<noteq> 0"
    and cprmax: "cpr \<le> (h - 2) div ?cs" and cpcmax: "cpc \<le> (w - 2) div ?cs"
    and rows: "np_linspace_int (r + 2) (h - (r + 2)) cpr = Inr rows"
    and cols: "np_linspace_int (r + 2) (w - (r + 2)) cpc = Inr cols"
    and loop: "evenly_loop rows cols cpr [0..<nat (min n (cpc * cpr))] = Inr ps"
    by (rule evenly_unfold)
  have cs: "0 < ?cs" using True by simp
  from length_np_linspace_int[OF rows] cpr0 have cpr: "1 \<le> cpr" "length rows = nat cpr" by auto
  from length_np_linspace_int[OF cols] have cpc: "0 \<le> cpc" "length cols = nat cpc" by auto
  from evenly_loop_nth[OF loop] have len: "length ps = nat (min n (cpc * cpr))"
    and nth: "\<And>k. k < length ps \<Longrightarrow>
                 py_index rows (int k mod cpr) = Inr (fst (ps ! k))
               \<and> py_index cols (int k div cpr) = Inr (snd (ps ! k))"
    by auto
  from ab have a: "a < length ps" by simp
  have modnn: "\<And>k. 0 \<le> int k mod cpr" "\<And>k. 0 \<le> int k div cpr"
    using cpr(1) by (simp_all add: pos_imp_zdiv_nonneg_iff)
  have ra: "int a mod cpr < int (length rows)" "fst (ps ! a) = rows ! nat (int a mod cpr)"
    using py_index_nonneg[OF conjunct1[OF nth[OF a]] modnn(1)] by simp_all
  have ca: "int a div cpr < int (length cols)" "snd (ps ! a) = cols ! nat (int a div cpr)"
    using py_index_nonneg[OF conjunct2[OF nth[OF a]] modnn(2)] by simp_all
  have rb: "int b mod cpr < int (length rows)" "fst (ps ! b) = rows ! nat (int b mod cpr)"
    using py_index_nonneg[OF conjunct1[OF nth[OF ab(2)]] modnn(1)] by simp_all
  have cb: "int b div cpr < int (length cols)" "snd (ps ! b) = cols ! nat (int b div cpr)"
    using py_index_nonneg[OF conjunct2[OF nth[OF ab(2)]] modnn(2)] by simp_all
  have rspace: "?cs * (cpr - 1) \<le> (h - (r + 2)) - (r + 2)"
  proof -
    have "cpr * ?cs \<le> ((h - 2) div ?cs) * ?cs"
      using cprmax cs by (intro mult_right_mono) simp_all
    also have "\<dots> \<le> h - 2"
    proof -
      have "(h - 2) div ?cs * ?cs + (h - 2) mod ?cs = h - 2" by (rule div_mult_mod_eq)
      moreover have "0 \<le> (h - 2) mod ?cs" using cs by (rule pos_mod_sign)
      ultimately show ?thesis by linarith
    qed 
    finally show ?thesis by (simp add: algebra_simps)
  qed
  have cspace: "?cs * (cpc - 1) \<le> (w - (r + 2)) - (r + 2)"
  proof -
    have "cpc * ?cs \<le> ((w - 2) div ?cs) * ?cs"
      using cpcmax cs by (intro mult_right_mono) simp_all
    also have "\<dots> \<le> w - 2"
    proof -
      have "(w - 2) div ?cs * ?cs + (w - 2) mod ?cs = w - 2" by (rule div_mult_mod_eq)
      moreover have "0 \<le> (w - 2) mod ?cs" using cs by (rule pos_mod_sign)
      ultimately show ?thesis by linarith
    qed
    finally show ?thesis by (simp add: algebra_simps)
  qed
  have start: "0 \<le> r + 2" "0 \<le> ?cs" using True by simp_all
  have differ: "int a mod cpr \<noteq> int b mod cpr \<or> int a div cpr \<noteq> int b div cpr"
  proof (rule ccontr)
    assume "\<not> ?thesis"
    then have "int a mod cpr = int b mod cpr" "int a div cpr = int b div cpr" by simp_all
    then have "int a div cpr * cpr + int a mod cpr = int b div cpr * cpr + int b mod cpr"
      by (simp only:)
    then have "int a = int b" by (simp only: div_mult_mod_eq)
    with ab show False by simp
  qed
  then have "?cs \<le> \<bar>fst (ps ! a) - fst (ps ! b)\<bar> \<or> ?cs \<le> \<bar>snd (ps ! a) - snd (ps ! b)\<bar>"
  proof
    assume ne: "int a mod cpr \<noteq> int b mod cpr"
    then have "nat (int a mod cpr) \<noteq> nat (int b mod cpr)" using modnn(1) by (simp add: nat_eq_iff)
    moreover have "nat (int a mod cpr) < nat cpr" "nat (int b mod cpr) < nat cpr"
      using ra(1) rb(1) cpr modnn(1)[of a] modnn(1)[of b] by linarith+
    ultimately show ?thesis
      using np_linspace_int_apart[OF rows start rspace] ra(2) rb(2) by simp
  next
    assume ne: "int a div cpr \<noteq> int b div cpr"
    then have "nat (int a div cpr) \<noteq> nat (int b div cpr)" using modnn(2) by (simp add: nat_eq_iff)
    moreover have "nat (int a div cpr) < nat cpc" "nat (int b div cpr) < nat cpc"
      using ca(1) cb(1) cpc modnn(2)[of a] modnn(2)[of b] by linarith+
    ultimately show ?thesis
      using np_linspace_int_apart[OF cols start cspace] ca(2) cb(2) by simp
  qed
  then show ?thesis unfolding chebyshev_def by (auto simp: le_max_iff_disj)
qed


text \<open>
  Claim C4. For every pair of distinct city centers placed by either placement mode
  (random, through the exclusion mask, or on the even lattice), the Chebyshev separation
  \<open>max(|row1 - row2|, |col1 - col2|)\<close> of the centers is at least \<open>2 * city_radius + 1\<close>, so
  the city squares of side \<open>2 * city_radius + 1\<close> do not overlap.
\<close>

theorem city_centers_separated:
  assumes "generate_random_city_positions n r w h rs = Inr (ps, rs', ws)
           \<or> generate_evenly_distr_city_positions n r w h = Inr ps"
      and "a \<noteq> b" "a < length ps" "b < length ps"
  shows "2 * r + 1 \<le> chebyshev (ps ! a) (ps ! b)"
proof -
  have lt: "2 * r + 1 \<le> chebyshev (ps ! i) (ps ! j)" if "i < j" "j < length ps" for i j
    using assms(1) that random_positions_separated evenly_positions_separated by blast
  show ?thesis
  proof (cases "a < b")
    case True
    from lt[OF True assms(4)] show ?thesis .
  next
    case False
    with assms(2) have "b < a" by simp
    from lt[OF this assms(3)] show ?thesis by (simp add: chebyshev_commute)
  qed
qed

theorem city_centers_separated_witness:
  "map_sum id fst (generate_random_city_positions 3 3 27 10 (\<lambda>_. 0))
     = Inr [(4, 4), (4, 13), (4, 22)]
   \<and> generate_evenly_distr_city_positions 4 3 18 18 = Inr [(5, 5), (13, 5), (5, 13), (13, 13)]
   \<and> 2 * 3 + 1 \<le> chebyshev (4, 4) (4, 13)
   \<and> 2 * 3 + 1 \<le> chebyshev (13, 5) (5, 13)"
proof -
  have ev: "map_sum id fst (generate_random_city_positions 3 3 27 10 (\<lambda>_. 0))
     = Inr [(4, 4), (4, 13), (4, 22)]"
    by code_simp
  then obtain rs' ws where
    rnd: "generate_random_city_positions 3 3 27 10 (\<lambda>_. 0) = Inr ([(4, 4), (4, 13), (4, 22)], rs', ws)"
    by (cases "generate_random_city_positions 3 3 27 10 (\<lambda>_. 0)") auto
  have grd: "generate_evenly_distr_city_positions 4 3 18 18 = Inr [(5, 5), (13, 5), (5, 13), (13, 13)]"
    by code_simp
  have "2 * 3 + 1 \<le> chebyshev ([(4, 4), (4, 13), (4, 22)] ! 0) ([(4, 4), (4, 13), (4, 22)] ! 1)"
    using rnd by (intro city_centers_separated[of 3 3 27 10 "\<lambda>_. 0" _ rs' ws 0 1]) simp_all
  moreover
  have "2 * 3 + 1 \<le> chebyshev ([(5, 5), (13, 5), (5, 13), (13, 13)] ! 1) ([(5, 5), (13, 5), (5, 13), (13, 13)] ! 2)"
    using grd by (intro city_centers_separated[of 4 3 18 18 _ _ _ _ 1 2]) simp_all
  ultimately show ?thesis using ev grd by simp
qed

text \<open>
  Claim C1. For fixed \<open>(width, height, num_agents, num_resets)\<close> and a generator constructed
  with an integer seed, two independent calls of \<open>generate\<close> give the same grid and the same
  metadata (\<open>city_positions\<close>, \<open>train_stations\<close>, \<open>city_orientations\<close>): the result depends
  neither on the \<open>np_random\<close> argument nor on the state of numpy's global generator.
\<close>

theorem generate_deterministic:
  assumes "seed self = Some sd"
  shows "generate E self width height num_agents num_resets np_random1 ambient1
       = generate E self width height num_agents num_resets np_random2 ambient2"
  using assms by (simp add: generate_def choose_random_state_def)

theorem generate_deterministic_witness:
  "seed \<lparr>max_num_cities = 3, grid_mode = False, max_rails_between_cities = 2,
         max_rail_pairs_in_city = 1, seed = Some 5\<rparr> = Some 5
   \<and> generate example_flatland
        \<lparr>max_num_cities = 3, grid_mode = False, max_rails_between_cities = 2,
         max_rail_pairs_in_city = 1, seed = Some 5\<rparr> 30 20 1 0 None (\<lambda>_. 0)
     = generate example_flatland
        \<lparr>max_num_cities = 3, grid_mode = False, max_rails_between_cities = 2,
         max_rail_pairs_in_city = 1, seed = Some 5\<rparr> 30 20 1 0 (Some (\<lambda>_. 3)) (\<lambda>_. 9)
   \<and> map_option (map_sum id (\<lambda>p. (hint_city_positions p, hint_city_orientations p)))
        (generate example_flatland
          \<lparr>max_num_cities = 3, grid_mode = False, max_rails_between_cities = 2,
           max_rail_pairs_in_city = 1, seed = Some 5\<rparr> 30 20 1 0 (Some (\<lambda>_. 3)) (\<lambda>_. 9))
     = Some (Inr ([(4, 9), (4, 24), (13, 11)], [2, 3, 0]))"
proof -
  have "map_option (map_sum id (\<lambda>p. (hint_city_positions p, hint_city_orientations p)))
        (generate example_flatland
          \<lparr>max_num_cities = 3, grid_mode = False, max_rails_between_cities = 2,
           max_rail_pairs_in_city = 1, seed = Some 5\<rparr> 30 20 1 0 (Some (\<lambda>_. 3)) (\<lambda>_. 9))
     = Some (Inr ([(4, 9), (4, 24), (13, 11)], [2, 3, 0]))"
    by code_simp
  then show ?thesis
    using generate_deterministic [of "\<lparr>max_num_cities = 3, grid_mode = False,
        max_rails_between_cities = 2, max_rail_pairs_in_city = 1, seed = Some 5\<rparr>" 5
        example_flatland 30 20 1 0 None "\<lambda>_. 0" "Some (\<lambda>_. 3)" "\<lambda>_. 9"]
    by simp
qed

named_theorems ni \<open>steps that never raise the infeasible-layout error\<close>

lemma ni_Inr [ni, simp]: "not_infeasible (Inr x)"
  by (simp add: not_infeasible_def)

lemma ni_Inl_iff: "not_infeasible (Inl e) \<longleftrightarrow> e \<noteq> InfeasibleLayout"
  by (simp add: not_infeasible_def)

lemma ni_IndexError [ni, simp]: "not_infeasible (Inl IndexError)"
  by (simp add: not_infeasible_def InfeasibleLayout_def)

lemma ni_ZeroDivisionError [ni, simp]: "not_infeasible (Inl ZeroDivisionError)"
  by (simp add: not_infeasible_def InfeasibleLayout_def)

lemma ni_UnboundLocalError [ni, simp]: "not_infeasible (Inl UnboundLocalError)"
  by (simp add: not_infeasible_def InfeasibleLayout_def)

lemma ni_bindE [ni]:
  "not_infeasible m \<Longrightarrow> (\<And>x. m = Inr x \<Longrightarrow> not_infeasible (f x)) \<Longrightarrow> not_infeasible (bindE m f)"
  by (cases m) (simp_all add: not_infeasible_def)

lemma ni_if [ni]:
  "(c \<Longrightarrow> not_infeasible a) \<Longrightarrow> (\<not> c \<Longrightarrow> not_infeasible b) \<Longrightarrow> not_infeasible (if c then a else b)"
  by simp

lemma ni_case_prod [ni]:
  "(\<And>a b. p = (a, b) \<Longrightarrow> not_infeasible (f a b)) \<Longrightarrow> not_infeasible (case p of (a, b) \<Rightarrow> f a b)"
  by (cases p) simp

lemma ni_case_option [ni]:
  "(v = None \<Longrightarrow> not_infeasible a) \<Longrightarrow> (\<And>x. v = Some x \<Longrightarrow> not_infeasible (f x))
     \<Longrightarrow> not_infeasible (case v of None \<Rightarrow> a | Some x \<Rightarrow> f x)"
  by (cases v) simp_all

lemma ni_py_index [ni, simp]: "not_infeasible (py_index xs i)"
  by (simp add: py_index_def)

lemma ni_norm_index [ni, simp]: "not_infeasible (norm_index n i)"
  by (simp add: norm_index_def)

lemma ni_unbound [ni, simp]: "not_infeasible (unbound v)"
  by (simp add: unbound_def split: option.splits)

lemma ni_randint [ni, simp]: "not_infeasible (randint rs lo hi)"
  by (simp add: randint_def not_infeasible_def InfeasibleLayout_def)

lemma ni_np_zeros2 [ni, simp]: "not_infeasible (np_zeros2 h w)"
  by (simp add: np_zeros2_def not_infeasible_def InfeasibleLayout_def)

lemma ni_np_linspace_int [ni, simp]: "not_infeasible (np_linspace_int a b n)"
  by (simp add: np_linspace_int_def not_infeasible_def InfeasibleLayout_def Let_def)

lemma ni_build_clique3 [ni, simp]: "not_infeasible (build_clique3 ia i)"
  unfolding build_clique3_def by (intro ni)

lemma ni_clique_at [ni, simp]: "not_infeasible (clique_at si i)"
  unfolding clique_at_def Let_def by (intro ni)

lemma ni_clique_loop [ni, simp]: "not_infeasible (clique_loop si is)"
  by (induction "is") (simp, simp only: clique_loop.simps, intro ni)

lemma ni_contains_cliques [ni, simp]: "not_infeasible (contains_cliques ps)"
  unfolding contains_cliques_def Let_def by (intro ni)

lemma ni_place_random_loop [ni, simp]: "not_infeasible (place_random_loop k p g rs acc)"
proof (induction k arbitrary: g rs acc)
  case 0
  show ?case by simp
next
  case (Suc k)
  show ?case unfolding place_random_loop.simps Let_def by (intro ni Suc.IH)
qed

lemma ni_generate_random [ni, simp]: "not_infeasible (generate_random_city_positions n r w h rs)"
  unfolding generate_random_city_positions_def Let_def by (intro ni)

lemma ni_evenly_loop [ni, simp]: "not_infeasible (evenly_loop rows cols cpr idxs)"
proof (induction idxs)
  case Nil
  show ?case by simp
next
  case (Cons i idxs)
  show ?case unfolding evenly_loop.simps by (intro ni Cons.IH)
qed

lemma ni_ValueError_nan [ni, simp]:
  "not_infeasible (Inl (ValueError ''cannot convert float NaN to integer''))"
  by (simp add: not_infeasible_def InfeasibleLayout_def)

lemma ni_generate_evenly [ni, simp]: "not_infeasible (generate_evenly_distr_city_positions n r w h)"
  unfolding generate_evenly_distr_city_positions_def Let_def by (intro ni)

lemma ni_np_set2 [ni, simp]: "not_infeasible (np_set2 a cell v)"
  unfolding np_set2_def by (intro ni)

lemma ni_np_get2 [ni, simp]: "not_infeasible (np_get2 a cell)"
  unfolding np_get2_def by (intro ni)

lemma ni_align_cells [ni, simp]: "not_infeasible (align_cells E c ori cells vf)"
proof (induction cells arbitrary: vf)
  case Nil
  show ?case by simp
next
  case (Cons cell cells)
  show ?case unfolding align_cells.simps by (intro ni Cons.IH)
qed

lemma ni_get_cells_in_city [ni, simp]: "not_infeasible (get_cells_in_city E c r ori vf)"
  unfolding get_cells_in_city_def Let_def by (intro ni)

lemma ni_city_connection_points [ni, simp]:
  "not_infeasible (city_connection_points E gm ps r rp p vf rs)"
  unfolding city_connection_points_def Let_def by (intro ni)

lemma ni_connection_points_loop [ni, simp]:
  "not_infeasible (connection_points_loop E gm ps r rp cities acc)"
proof (induction cities arbitrary: acc)
  case Nil
  show ?case by simp
next
  case (Cons p cities)
  show ?case unfolding connection_points_loop.simps by (intro ni Cons.IH)
qed

lemma ni_generate_city_connection_points [ni, simp]:
  "not_infeasible (generate_city_connection_points E gm ps r vf rb rp rs)"
  unfolding generate_city_connection_points_def by (intro ni)

lemma ni_four_sides [ni, simp]: "not_infeasible (four_sides pts c)"
  unfolding four_sides_def by (intro ni)

lemma ni_even_step [ni]:
  "not_infeasible nb \<Longrightarrow> not_infeasible (even_step E ps idx p nb out loc)"
  unfolding even_step_def Let_def by (intro ni)

lemma ni_odd_step [ni, simp]: "not_infeasible (odd_step E cells out s)"
  unfolding odd_step_def Let_def by (intro ni)

lemma ni_connect_pass [ni]:
  "not_infeasible nb \<Longrightarrow> not_infeasible (connect_pass E ps cells idx p nb outs s)"
proof (induction outs arbitrary: s)
  case Nil
  show ?case by simp
next
  case (Cons out outs)
  show ?case unfolding connect_pass.simps by (intro ni Cons.IH Cons.prems)
qed

lemma ni_out_directions [ni, simp]: "not_infeasible (out_directions E ps cp p idxs)"
  unfolding out_directions_def Let_def by (intro ni)

lemma ni_connect_city [ni, simp]: "not_infeasible (connect_city E ps cps cells idx s)"
  unfolding connect_city_def Let_def by (intro ni)

lemma ni_connect_cities_loop [ni, simp]: "not_infeasible (connect_cities_loop E ps cps cells idxs s)"
proof (induction idxs arbitrary: s)
  case Nil
  show ?case by simp
next
  case (Cons i idxs)
  show ?case unfolding connect_cities_loop.simps by (intro ni Cons.IH)
qed

lemma ni_connect_cities [ni, simp]: "not_infeasible (connect_cities E ps cps cells g)"
  unfolding connect_cities_def by (intro ni)

lemma ni_find_boarder [ni, simp]: "not_infeasible (find_boarder sides is b)"
proof (induction "is")
  case Nil
  show ?case by simp
next
  case (Cons i "is")
  show ?case unfolding find_boarder.simps by (intro ni Cons.IH)
qed

lemma ni_parallel_tracks [ni, simp]: "not_infeasible (parallel_tracks E inner b ob ids g)"
proof (induction ids arbitrary: g)
  case Nil
  show ?case by simp
next
  case (Cons i ids)
  show ?case unfolding parallel_tracks.simps Let_def by (intro ni Cons.IH)
qed

lemma ni_outer_links [ni, simp]: "not_infeasible (outer_links E inner outer b ob si n ids g)"
proof (induction ids arbitrary: g)
  case Nil
  show ?case by simp
next
  case (Cons i ids)
  show ?case unfolding outer_links.simps Let_def by (intro ni Cons.IH)
qed

lemma ni_build_inner_city [ni, simp]: "not_infeasible (build_inner_city E inner outer c s)"
  unfolding build_inner_city_def Let_def by (intro ni)

lemma ni_build_inner_cities_loop [ni, simp]:
  "not_infeasible (build_inner_cities_loop E inner outer cs s)"
proof (induction cs arbitrary: s)
  case Nil
  show ?case by simp
next
  case (Cons c cs)
  show ?case unfolding build_inner_cities_loop.simps by (intro ni Cons.IH)
qed

lemma ni_build_inner_cities [ni, simp]: "not_infeasible (build_inner_cities E ps inner outer g)"
  unfolding build_inner_cities_def by (intro ni)

lemma ni_station_of_track [ni, simp]: "not_infeasible (station_of_track t k)"
  unfolding station_of_track_def by (intro ni)

lemma ni_stations_of_city [ni, simp]: "not_infeasible (stations_of_city ts k)"
proof (induction ts arbitrary: k)
  case Nil
  show ?case by simp
next
  case (Cons t ts)
  show ?case unfolding stations_of_city.simps by (intro ni Cons.IH)
qed

lemma ni_set_trainstation_loop [ni, simp]: "not_infeasible (set_trainstation_loop fr cs)"
proof (induction cs)
  case Nil
  show ?case by simp
next
  case (Cons c cs)
  show ?case unfolding set_trainstation_loop.simps by (intro ni Cons.IH)
qed

lemma ni_set_trainstation_positions [ni, simp]: "not_infeasible (set_trainstation_positions ps r fr)"
  unfolding set_trainstation_positions_def by (intro ni)

lemma ni_collect_rails_to_fix [ni, simp]: "not_infeasible (collect_rails_to_fix E g vf cap cells acc)"
proof (induction cells arbitrary: acc)
  case Nil
  show ?case by simp
next
  case (Cons c cells)
  show ?case unfolding collect_rails_to_fix.simps by (intro ni Cons.IH)
qed

lemma ni_fix_transitions_pass [ni, simp]:
  "not_infeasible (fix_transitions_pass E cells lines g vf h w)"
  unfolding fix_transitions_pass_def Let_def by (intro ni)

lemma ni_build_network [ni, simp]: "not_infeasible (build_network E self w h g vf s)"
  unfolding build_network_def Let_def by (intro ni)

lemma ni_fallback_to_grid [ni, simp]: "not_infeasible (fallback_to_grid mf r w h s)"
  unfolding fallback_to_grid_def Let_def by (intro ni)

lemma ni_redo_while_cliques:
  assumes "redo_while_cliques place s = Some m" and "\<And>rs. not_infeasible (place rs)"
  shows "not_infeasible m"
proof -
  from assms(1) have "(\<forall>rs. not_infeasible (place rs)) \<longrightarrow> not_infeasible m"
  proof (induction rule: redo_while_cliques.raw_induct[rotated 1, consumes 1])
    case (1 redo place s m)
    show ?case
    proof
      assume pl: "\<forall>rs. not_infeasible (place rs)"
      show "not_infeasible m"
      proof (cases "contains_cliques (fst s)")
        case (Inl e)
        with 1(2) ni_contains_cliques[of "fst s"] show ?thesis by (auto simp: ni_Inl_iff)
      next
        case (Inr cliques)
        show ?thesis
        proof (cases cliques)
          case False
          with Inr 1(2) show ?thesis by auto
        next
          case True
          show ?thesis
          proof (cases "place (fst (snd s))")
            case (Inl e)
            with Inr True 1(2) pl[rule_format, of "fst (snd s)"] show ?thesis
              by (auto simp: ni_Inl_iff)
          next
            case (Inr s')
            with \<open>contains_cliques (fst s) = Inr cliques\<close> True 1(2)
            have rec: "redo place (fst s', fst (snd s'), snd (snd s) @ snd (snd s')) = Some m"
              by simp
            have "(\<forall>rs. not_infeasible (place rs)) \<longrightarrow> not_infeasible m"
              by (rule 1(1)[OF rec])
            with pl show ?thesis by blast
          qed
        qed
      qed
    qed
  qed
  with assms show ?thesis by blast
qed

lemma ni_place_cities:
  assumes "place_cities self mf r w h rs = Some m"
  shows "not_infeasible m"
proof -
  from assms obtain m0 where
    first: "(if grid_mode self then
              Some (bindE (generate_evenly_distr_city_positions mf r w h)
                      (\<lambda>city_positions. Inr (city_positions, rs, [])))
            else
              (case generate_random_city_positions mf r w h rs of
                 Inl e \<Rightarrow> Some (Inl e)
               | Inr s \<Rightarrow>
                   if max_num_cities self > 4 then
                     redo_while_cliques (generate_random_city_positions mf r w h) s
                   else Some (Inr s))) = Some m0"
    and m: "m = bindE m0 (fallback_to_grid mf r w h)"
    unfolding place_cities_def by (auto split: option.splits)
  have "not_infeasible m0"
  proof (cases "grid_mode self")
    case True
    with first have "m0 = bindE (generate_evenly_distr_city_positions mf r w h)
                      (\<lambda>city_positions. Inr (city_positions, rs, []))" by simp
    then show ?thesis by (simp only:) (intro ni)
  next
    case False
    show ?thesis
    proof (cases "generate_random_city_positions mf r w h rs")
      case (Inl e)
      with False first ni_generate_random[of mf r w h rs] show ?thesis
        by (auto simp: ni_Inl_iff)
    next
      case (Inr s)
      show ?thesis
      proof (cases "max_num_cities self > 4")
        case True
        with False Inr first
        have "redo_while_cliques (generate_random_city_positions mf r w h) s = Some m0" by simp
        then show ?thesis by (rule ni_redo_while_cliques) simp
      next
        case False
        with \<open>\<not> grid_mode self\<close> Inr first show ?thesis by auto
      qed
    qed
  qed
  then show ?thesis unfolding m by (intro ni)
qed


lemma choose_random_state_returns:
  assumes "seed_accepted self"
  shows "\<exists>rs. choose_random_state E self np amb = Inr rs"
proof (cases "seed self")
  case (Some sd)
  with assms show ?thesis
    by (simp add: choose_random_state_def seed_accepted_def RandomState_of_seed_def)
next
  case None
  show ?thesis
  proof (cases np)
    case (Some r)
    with None show ?thesis by (simp add: choose_random_state_def)
  next
    case np: None
    have "0 \<le> int (amb 0) mod 2 ^ 32" "int (amb 0) mod 2 ^ 32 < 2 ^ 32"
      by simp_all
    with None np show ?thesis
      by (simp add: choose_random_state_def randint_def RandomState_of_seed_def)
  qed
qed

lemma rejected_seed_raises:
  "seed self = Some sd \<Longrightarrow> sd < 0 \<or> 2 ^ 32 \<le> sd \<Longrightarrow>
   generate E self width height num_agents num_resets np_random ambient
     = Some (Inl (ValueError ''Seed must be between 0 and 2**32 - 1''))"
  by (auto simp: generate_def choose_random_state_def RandomState_of_seed_def)

lemma city_radius_of_eq: "city_radius_of self = max 1 (max_rail_pairs_in_city self) + 2"
proof -
  have "real_of_int (rail_pairs_in_city_of self * 2) / 2 = real_of_int (rail_pairs_in_city_of self)"
    by simp
  moreover have "0 \<le> rail_pairs_in_city_of self"
    by (simp add: rail_pairs_in_city_of_def Let_def)
  ultimately have "city_radius_of self = rail_pairs_in_city_of self + 2"
    by (simp add: city_radius_of_def int_of_float_def Let_def)
  then show ?thesis by (simp add: rail_pairs_in_city_of_def Let_def max_def)
qed

text \<open>
  Claim C2. \<open>generate\<close> raises the fatal error of an infeasible layout, and returns no map,
  exactly when fewer than 2 cities fit on the grid, that is when
  \<open>min(max_num_cities, ((height - 2) // (2 * (city_radius + 1))) * ((width - 2) // (2 * (city_radius + 1)))) < 2\<close>;
  otherwise generation proceeds: its outcome is the outcome of placing the cities and
  building the network on them, it returns or raises whenever placement cannot loop (grid
  mode, or at most 4 cities requested), and nothing it does raises that error. The inputs
  are those numpy accepts: a grid of non-negative dimensions and, when the generator has a
  seed, a seed from 0 to \<open>2**32 - 1\<close>.
\<close>

theorem infeasible_layout_iff:
  assumes "0 \<le> width" "0 \<le> height" "seed_accepted self"
  shows "(generate E self width height num_agents num_resets np_random ambient
            = Some (Inl InfeasibleLayout)
          \<longleftrightarrow> min (max_num_cities self)
                (((height - 2) div (2 * (city_radius_of self + 1)))
                 * ((width - 2) div (2 * (city_radius_of self + 1)))) < 2)
       \<and> city_radius_of self = max 1 (max_rail_pairs_in_city self) + 2
       \<and> (\<not> min (max_num_cities self)
                (((height - 2) div (2 * (city_radius_of self + 1)))
                 * ((width - 2) div (2 * (city_radius_of self + 1)))) < 2
          \<longrightarrow> (\<exists>rs. choose_random_state E self np_random ambient = Inr rs
                \<and> generate E self width height num_agents num_resets np_random ambient
                    = (case place_cities self (max_feasible_cities_of self width height)
                              (city_radius_of self) width height rs of
                         None \<Rightarrow> None
                       | Some (Inl e) \<Rightarrow> Some (Inl e)
                       | Some (Inr s) \<Rightarrow>
                           Some (build_network E self width height
                                   (GridTransitionMap E width height)
                                   (replicate (nat height) (replicate (nat width) (- 1))) s)))
              \<and> (grid_mode self \<or> max_num_cities self \<le> 4
                   \<longrightarrow> generate E self width height num_agents num_resets np_random ambient
                         \<noteq> None))"
proof -
  obtain rs where rs: "choose_random_state E self np_random ambient = Inr rs"
    using choose_random_state_returns[OF assms(3)] by blast
  have z: "np_zeros2 height width = Inr (replicate (nat height) (replicate (nat width) (0::int)))"
    using assms by (simp add: np_zeros2_def)
  let ?mf = "max_feasible_cities_of self width height"
  let ?vf = "replicate (nat height) (replicate (nat width) (- 1 :: int))"
  let ?go = "case place_cities self ?mf (city_radius_of self) width height rs of
              None \<Rightarrow> None
            | Some (Inl e) \<Rightarrow> Some (Inl e)
            | Some (Inr s) \<Rightarrow>
                Some (build_network E self width height (GridTransitionMap E width height) ?vf s)"
  have gen: "generate E self width height num_agents num_resets np_random ambient =
     (if ?mf < 2 then Some (Inl InfeasibleLayout) else ?go)"
    by (simp add: generate_def rs z Let_def)
  have iff: "generate E self width height num_agents num_resets np_random ambient
            = Some (Inl InfeasibleLayout) \<longleftrightarrow> ?mf < 2"
  proof (cases "?mf < 2")
    case True
    with gen show ?thesis by simp
  next
    case False
    have "generate E self width height num_agents num_resets np_random ambient
            \<noteq> Some (Inl InfeasibleLayout)"
    proof (cases "place_cities self ?mf (city_radius_of self) width height rs")
      case None
      with gen False show ?thesis by simp
    next
      case (Some m)
      then have nm: "not_infeasible m" by (rule ni_place_cities)
      show ?thesis
      proof (cases m)
        case (Inl e)
        with nm have "e \<noteq> InfeasibleLayout" by (simp add: ni_Inl_iff)
        with gen False Some Inl show ?thesis by simp
      next
        case (Inr s)
        have "not_infeasible (build_network E self width height (GridTransitionMap E width height)
                        ?vf s)" by simp
        with gen False Some Inr show ?thesis by (simp add: not_infeasible_def)
      qed
    qed
    with False show ?thesis by simp
  qed
  have proceeds: "generate E self width height num_agents num_resets np_random ambient = ?go"
    if "\<not> ?mf < 2"
    using gen that by simp
  have returns: "generate E self width height num_agents num_resets np_random ambient \<noteq> None"
    if feasible: "\<not> ?mf < 2" and once: "grid_mode self \<or> max_num_cities self \<le> 4"
  proof -
    have "place_cities self ?mf (city_radius_of self) width height rs \<noteq> None"
      using once by (auto simp: place_cities_def split: sum.splits)
    then show ?thesis
      unfolding proceeds[OF feasible] by (auto split: option.splits sum.splits)
  qed
  have mf: "?mf = min (max_num_cities self)
                (((height - 2) div (2 * (city_radius_of self + 1)))
                 * ((width - 2) div (2 * (city_radius_of self + 1))))"
    by (simp add: max_feasible_cities_of_def)
  from iff proceeds returns rs show ?thesis
    unfolding mf[symmetric] using city_radius_of_eq[of self] by blast
qed

theorem infeasible_layout_iff_witness:
  "(0::int) \<le> 10
   \<and> seed_accepted \<lparr>max_num_cities = 3, grid_mode = False, max_rails_between_cities = 2,
         max_rail_pairs_in_city = 1, seed = Some 5\<rparr>
   \<and> generate example_flatland
        \<lparr>max_num_cities = 3, grid_mode = False, max_rails_between_cities = 2,
         max_rail_pairs_in_city = 1, seed = Some 5\<rparr> 10 10 1 0 None (\<lambda>_. 0)
       = Some (Inl InfeasibleLayout)
   \<and> generate example_flatland
        \<lparr>max_num_cities = 3, grid_mode = False, max_rails_between_cities = 2,
         max_rail_pairs_in_city = 1, seed = Some 5\<rparr> 30 20 1 0 None (\<lambda>_. 0)
       \<noteq> None
   \<and> map_option (map_sum id hint_city_positions)
        (generate example_flatland
          \<lparr>max_num_cities = 3, grid_mode = False, max_rails_between_cities = 2,
           max_rail_pairs_in_city = 1, seed = Some 5\<rparr> 30 20 1 0 None (\<lambda>_. 0))
       = Some (Inr [(4, 9), (4, 24), (13, 11)])"
proof -
  let ?self = "\<lparr>max_num_cities = 3, grid_mode = False, max_rails_between_cities = 2,
         max_rail_pairs_in_city = 1, seed = Some 5\<rparr>"
  have r: "city_radius_of ?self = 3" by (simp add: city_radius_of_eq)
  have ok: "seed_accepted ?self" by (simp add: seed_accepted_def)
  have ev: "map_option (map_sum id hint_city_positions)
        (generate example_flatland ?self 30 20 1 0 None (\<lambda>_. 0))
       = Some (Inr [(4, 9), (4, 24), (13, 11)])"
    by code_simp
  have small: "generate example_flatland ?self 10 10 1 0 None (\<lambda>_. 0) = Some (Inl InfeasibleLayout)"
    using infeasible_layout_iff [of 10 10 ?self example_flatland 1 0 None "\<lambda>_. 0"] ok
    by (simp add: r)
  have large: "generate example_flatland ?self 30 20 1 0 None (\<lambda>_. 0) \<noteq> None"
    using infeasible_layout_iff [of 30 20 ?self example_flatland 1 0 None "\<lambda>_. 0"] ok
    by (simp add: r)
  from ok ev small large show ?thesis by simp
qed

lemma nth_attempt_shift:
  "nth_attempt place s (Suc n) =
     bindE (place (fst (snd s))) (\<lambda>s'.
       nth_attempt place (fst s', fst (snd s'), snd (snd s) @ snd (snd s')) n)"
proof (induction n)
  case 0
  show ?case by (cases "place (fst (snd s))") simp_all
next
  case (Suc n)
  have "nth_attempt place s (Suc (Suc n)) =
        bindE (nth_attempt place s (Suc n)) (\<lambda>s1.
          bindE (place (fst (snd s1))) (\<lambda>s'.
            Inr (fst s', fst (snd s'), snd (snd s1) @ snd (snd s'))))"
    by simp
  also have "\<dots> = bindE (place (fst (snd s))) (\<lambda>s'.
       nth_attempt place (fst s', fst (snd s'), snd (snd s) @ snd (snd s')) (Suc n))"
    unfolding Suc.IH by (cases "place (fst (snd s))") simp_all
  finally show ?case .
qed

lemma first_clique_free_Suc:
  assumes "contains_cliques (fst s) = Inr True" "place (fst (snd s)) = Inr s'"
  shows "first_clique_free place s (Suc n) r
         \<longleftrightarrow> first_clique_free place (fst s', fst (snd s'), snd (snd s) @ snd (snd s')) n r"
proof -
  let ?s1 = "(fst s', fst (snd s'), snd (snd s) @ snd (snd s'))"
  have shift: "\<And>k. nth_attempt place s (Suc k) = nth_attempt place ?s1 k"
    using assms(2) by (simp only: nth_attempt_shift) simp
  have "(\<forall>k < Suc n. \<exists>sk. nth_attempt place s k = Inr sk \<and> contains_cliques (fst sk) = Inr True)
        \<longleftrightarrow> (\<forall>k < n. \<exists>sk. nth_attempt place ?s1 k = Inr sk \<and> contains_cliques (fst sk) = Inr True)"
    (is "?L \<longleftrightarrow> ?R")
  proof
    assume l: ?L
    show ?R
    proof (intro allI impI)
      fix k assume "k < n"
      then have "Suc k < Suc n" by simp
      with l have "\<exists>sk. nth_attempt place s (Suc k) = Inr sk \<and> contains_cliques (fst sk) = Inr True"
        by blast
      then show "\<exists>sk. nth_attempt place ?s1 k = Inr sk \<and> contains_cliques (fst sk) = Inr True"
        by (simp only: shift)
    qed
  next
    assume r: ?R
    show ?L
    proof (intro allI impI)
      fix k assume k: "k < Suc n"
      show "\<exists>sk. nth_attempt place s k = Inr sk \<and> contains_cliques (fst sk) = Inr True"
      proof (cases k)
        case 0
        with assms(1) show ?thesis by simp
      next
        case (Suc k')
        with k have "k' < n" by simp
        with r have "\<exists>sk. nth_attempt place ?s1 k' = Inr sk \<and> contains_cliques (fst sk) = Inr True"
          by blast
        then show ?thesis unfolding Suc by (simp only: shift)
      qed
    qed
  qed
  then show ?thesis unfolding first_clique_free_def by (simp only: shift)
qed

lemma redo_returns_first_clique_free:
  assumes "first_clique_free place s n r"
  shows "redo_while_cliques place s = Some (Inr r)"
  using assms
proof (induction n arbitrary: s)
  case 0
  then show ?case
    by (subst redo_while_cliques.simps) (simp add: first_clique_free_def)
next
  case (Suc n)
  from Suc.prems have c: "contains_cliques (fst s) = Inr True"
    unfolding first_clique_free_def by auto
  from Suc.prems obtain s' where p: "place (fst (snd s)) = Inr s'"
    unfolding first_clique_free_def nth_attempt_shift by (cases "place (fst (snd s))") auto
  from Suc.prems have "first_clique_free place (fst s', fst (snd s'), snd (snd s) @ snd (snd s')) n r"
    by (simp only: first_clique_free_Suc[of s place s', OF c p])
  from Suc.IH[OF this] show ?case
    by (subst redo_while_cliques.simps) (simp add: c p)
qed

lemma redo_result_is_first_clique_free:
  assumes "redo_while_cliques place s = Some (Inr r)"
  shows "\<exists>n. first_clique_free place s n r"
proof -
  have "redo_while_cliques place s = Some y
        \<Longrightarrow> \<forall>r. y = Inr r \<longrightarrow> (\<exists>n. first_clique_free place s n r)" for y
  proof (induction rule: redo_while_cliques.raw_induct[rotated 1, consumes 1])
    case (1 redo place s y)
    show ?case
    proof (intro allI impI)
      fix r assume y: "y = Inr r"
      show "\<exists>n. first_clique_free place s n r"
      proof (cases "contains_cliques (fst s)")
        case (Inl e)
        with 1(2) y show ?thesis by simp
      next
        case (Inr cliques)
        show ?thesis
        proof (cases cliques)
          case False
          with Inr 1(2) y have "r = s" by simp
          with Inr False have "first_clique_free place s 0 r"
            by (simp add: first_clique_free_def)
          then show ?thesis by blast
        next
          case True
          show ?thesis
          proof (cases "place (fst (snd s))")
            case (Inl e)
            with Inr True 1(2) y show ?thesis by simp
          next
            case p: (Inr s')
            with Inr True 1(2) y
            have rec: "redo place (fst s', fst (snd s'), snd (snd s) @ snd (snd s')) = Some (Inr r)"
              by simp
            note ih = 1(1)[OF rec]
            then obtain n where
              "first_clique_free place (fst s', fst (snd s'), snd (snd s) @ snd (snd s')) n r"
              by blast
            moreover have c: "contains_cliques (fst s) = Inr True" using Inr True by simp
            ultimately have "first_clique_free place s (Suc n) r"
              by (simp only: first_clique_free_Suc[of s place s', OF c p])
            then show ?thesis by blast
          qed
        qed
      qed
    qed
  qed
  with assms show ?thesis by blast
qed


lemma place_random_loop_const_state:
  "place_random_loop k p g (\<lambda>_. c) acc = Inr (ps, rs') \<Longrightarrow> rs' = (\<lambda>_. c)"
proof (induction k arbitrary: g acc)
  case 0
  then show ?case by simp
next
  case (Suc k)
  show ?case
  proof (cases "np_where_eq g 1 = []")
    case True
    with Suc.prems show ?thesis by (simp add: Let_def)
  next
    case False
    with Suc.prems obtain g' acc' where
      "place_random_loop k p g' (\<lambda>_. c) acc' = Inr (ps, rs')"
      by (auto simp: Let_def bindE_eq_Inr randint_def split: if_splits)
    then show ?thesis by (rule Suc.IH)
  qed
qed

lemma generate_random_const_state:
  "generate_random_city_positions n r w h (\<lambda>_. c) = Inr (ps, rs', ws) \<Longrightarrow> rs' = (\<lambda>_. c)"
  by (auto simp: generate_random_city_positions_def Let_def bindE_eq_Inr
      dest: place_random_loop_const_state)

lemma crowded_placement:
  "generate_random_city_positions 3 3 27 10 (\<lambda>_. 0) = Inr ([(4, 4), (4, 13), (4, 22)], (\<lambda>_. 0), [])"
proof -
  have "map_sum id (\<lambda>s. (fst s, snd (snd s))) (generate_random_city_positions 3 3 27 10 (\<lambda>_. 0))
          = Inr ([(4, 4), (4, 13), (4, 22)], [])"
    by code_simp
  then obtain rs' where
    "generate_random_city_positions 3 3 27 10 (\<lambda>_. 0) = Inr ([(4, 4), (4, 13), (4, 22)], rs', [])"
    by (cases "generate_random_city_positions 3 3 27 10 (\<lambda>_. 0)") auto
  with generate_random_const_state[OF this] show ?thesis by simp
qed

lemma crowded_cliques: "contains_cliques [(4, 4), (4, 13), (4, 22)] = Inr True"
  by code_simp

lemma crowded_attempts:
  "nth_attempt (generate_random_city_positions 3 3 27 10)
     ([(4, 4), (4, 13), (4, 22)], (\<lambda>_. 0), []) n
   = Inr ([(4, 4), (4, 13), (4, 22)], (\<lambda>_. 0), [])"
  by (induction n) (simp_all add: crowded_placement)

lemma crowded_never_returns:
  "redo_while_cliques (generate_random_city_positions 3 3 27 10)
     ([(4, 4), (4, 13), (4, 22)], (\<lambda>_. 0), []) = None"
proof -
  have stuck: "redo_while_cliques place s = Some y \<Longrightarrow>
          place = generate_random_city_positions 3 3 27 10
          \<and> s = ([(4, 4), (4, 13), (4, 22)], (\<lambda>_. 0), []) \<longrightarrow> False" for place s y
  proof (induction rule: redo_while_cliques.raw_induct[rotated 1, consumes 1])
    case (1 redo place s y)
    show ?case
    proof
      assume a: "place = generate_random_city_positions 3 3 27 10
             \<and> s = ([(4, 4), (4, 13), (4, 22)], (\<lambda>_. 0), [])"
      with 1(2) have "redo place s = Some y"
        by (simp add: crowded_cliques crowded_placement)
      from 1(1)[OF this] a show False by blast
    qed
  qed
  show ?thesis
  proof (cases "redo_while_cliques (generate_random_city_positions 3 3 27 10)
     ([(4, 4), (4, 13), (4, 22)], (\<lambda>_. 0), [])")
    case None
    then show ?thesis .
  next
    case (Some y)
    from stuck[OF this] show ?thesis by simp
  qed
qed

text \<open>
  Claim C3, as the code has it. In random mode with more than 4 cities requested,
  \<open>generate\<close> passes the placement to the clique predicate and, inside its own
  \<open>while\<close> loop, places the cities again for as long as the predicate is positive, each time
  from the generator state the attempt before left. Placement returns exactly when some
  attempt is the first without cliques, and then with that attempt; the number of
  attempts is not bounded by the component. With at most 4 cities requested there is
  exactly one attempt.
\<close>

theorem clique_retry_loop:
  assumes "\<not> grid_mode self"
      and "generate_random_city_positions mf r w h rs = Inr s0"
  shows "(max_num_cities self > 4 \<longrightarrow>
            (place_cities self mf r w h rs = Some (Inr result)
             \<longleftrightarrow> (\<exists>n s. first_clique_free (generate_random_city_positions mf r w h) s0 n s
                        \<and> fallback_to_grid mf r w h s = Inr result)))
       \<and> (max_num_cities self \<le> 4 \<longrightarrow>
            place_cities self mf r w h rs = Some (fallback_to_grid mf r w h s0))"
proof (intro conjI impI)
  assume big: "max_num_cities self > 4"
  let ?place = "generate_random_city_positions mf r w h"
  have pc: "place_cities self mf r w h rs =
              (case redo_while_cliques ?place s0 of
                 None \<Rightarrow> None
               | Some m \<Rightarrow> Some (bindE m (fallback_to_grid mf r w h)))"
    using assms big by (simp add: place_cities_def)
  show "place_cities self mf r w h rs = Some (Inr result)
             \<longleftrightarrow> (\<exists>n s. first_clique_free ?place s0 n s
                        \<and> fallback_to_grid mf r w h s = Inr result)"
  proof
    assume "place_cities self mf r w h rs = Some (Inr result)"
    with pc obtain m where m: "redo_while_cliques ?place s0 = Some m"
      and b: "bindE m (fallback_to_grid mf r w h) = Inr result"
      by (auto split: option.splits)
    from b obtain s where s: "m = Inr s" "fallback_to_grid mf r w h s = Inr result"
      by (auto simp: bindE_eq_Inr)
    from m s(1) obtain n where "first_clique_free ?place s0 n s"
      using redo_result_is_first_clique_free by blast
    with s(2) show "\<exists>n s. first_clique_free ?place s0 n s
                        \<and> fallback_to_grid mf r w h s = Inr result" by blast
  next
    assume "\<exists>n s. first_clique_free ?place s0 n s \<and> fallback_to_grid mf r w h s = Inr result"
    then obtain n s where f: "first_clique_free ?place s0 n s"
      and fb: "fallback_to_grid mf r w h s = Inr result" by blast
    from redo_returns_first_clique_free[OF f] fb pc
    show "place_cities self mf r w h rs = Some (Inr result)" by simp
  qed
next
  assume "max_num_cities self \<le> 4"
  with assms show "place_cities self mf r w h rs = Some (fallback_to_grid mf r w h s0)"
    by (simp add: place_cities_def)
qed

theorem clique_retry_loop_witness:
  "\<exists>s0 s. generate_random_city_positions 5 3 34 18 (\<lambda>j. 2 + j) = Inr s0
      \<and> fst s0 = [(4, 6), (4, 18), (5, 28), (13, 9), (13, 18)]
      \<and> first_clique_free (generate_random_city_positions 5 3 34 18) s0 1 s
      \<and> fst s = [(4, 11), (4, 28), (13, 13), (13, 22), (13, 4)]
      \<and> place_cities \<lparr>max_num_cities = 5, grid_mode = False, max_rails_between_cities = 2,
            max_rail_pairs_in_city = 1, seed = None\<rparr> 5 3 34 18 (\<lambda>j. 2 + j) = Some (Inr s)"
proof -
  let ?place = "generate_random_city_positions 5 3 34 18"
  let ?self = "\<lparr>max_num_cities = 5, grid_mode = False, max_rails_between_cities = 2,
            max_rail_pairs_in_city = 1, seed = None\<rparr>"
  have e0: "map_sum id fst (?place (\<lambda>j. 2 + j))
             = Inr [(4, 6), (4, 18), (5, 28), (13, 9), (13, 18)]"
    by code_simp
  have e1: "map_sum id fst (bindE (?place (\<lambda>j. 2 + j)) (\<lambda>s0. nth_attempt ?place s0 1))
             = Inr [(4, 11), (4, 28), (13, 13), (13, 22), (13, 4)]"
    by code_simp
  have c0: "contains_cliques [(4, 6), (4, 18), (5, 28), (13, 9), (13, 18)] = Inr True"
    by code_simp
  have c1: "contains_cliques [(4, 11), (4, 28), (13, 13), (13, 22), (13, 4)] = Inr False"
    by code_simp
  from e0 obtain s0 where s0: "?place (\<lambda>j. 2 + j) = Inr s0"
    and f0: "fst s0 = [(4, 6), (4, 18), (5, 28), (13, 9), (13, 18)]"
    by (cases "?place (\<lambda>j. 2 + j)") auto
  from e1 s0 obtain s where s: "nth_attempt ?place s0 1 = Inr s"
    and f1: "fst s = [(4, 11), (4, 28), (13, 13), (13, 22), (13, 4)]"
    by (cases "nth_attempt ?place s0 1") auto
  have fcf: "first_clique_free ?place s0 1 s"
    unfolding first_clique_free_def using s f0 f1 c0 c1 by simp
  have fb: "fallback_to_grid 5 3 34 18 s = Inr s"
    by (simp add: fallback_to_grid_def f1)
  have big: "max_num_cities ?self > 4" and rnd: "\<not> grid_mode ?self" by simp_all
  have "\<exists>n s'. first_clique_free ?place s0 n s' \<and> fallback_to_grid 5 3 34 18 s' = Inr s"
    using fcf fb by blast
  then have "place_cities ?self 5 3 34 18 (\<lambda>j. 2 + j) = Some (Inr s)"
    using clique_retry_loop[OF rnd s0, of s, THEN conjunct1, rule_format, OF big] by blast
  with s0 f0 fcf f1 show ?thesis by blast
qed

text \<open>
  The claim as stated fails: on a 27 by 10 grid with 5 cities requested, three cities fit
  in a row; three cities always count as a clique, and a generator whose every draw is 0
  places the same three cities at every attempt. Every attempt is made and has a clique,
  and \<open>generate\<close> never returns.
\<close>

theorem bounded_attempts_counterexample:
  "generate example_flatland
     \<lparr>max_num_cities = 5, grid_mode = False, max_rails_between_cities = 2,
      max_rail_pairs_in_city = 1, seed = None\<rparr> 27 10 1 0 (Some (\<lambda>_. 0)) (\<lambda>_. 0) = None
   \<and> (\<forall>n. \<exists>sk. nth_attempt (generate_random_city_positions 3 3 27 10)
                   ([(4, 4), (4, 13), (4, 22)], (\<lambda>_. 0), []) n = Inr sk
                \<and> contains_cliques (fst sk) = Inr True)"
proof -
  let ?self = "\<lparr>max_num_cities = 5, grid_mode = False, max_rails_between_cities = 2,
      max_rail_pairs_in_city = 1, seed = None\<rparr>"
  have r: "city_radius_of ?self = 3" by (simp add: city_radius_of_eq)
  have mf: "max_feasible_cities_of ?self 27 10 = 3"
    by (simp add: max_feasible_cities_of_def r)
  have "place_cities ?self 3 3 27 10 (\<lambda>_. 0) = None"
    by (simp add: place_cities_def crowded_placement crowded_never_returns)
  then have "generate example_flatland ?self 27 10 1 0 (Some (\<lambda>_. 0)) (\<lambda>_. 0) = None"
    by (simp add: generate_def choose_random_state_def np_zeros2_def mf r)
  moreover have "\<forall>n. \<exists>sk. nth_attempt (generate_random_city_positions 3 3 27 10)
                   ([(4, 4), (4, 13), (4, 22)], (\<lambda>_. 0), []) n = Inr sk
                \<and> contains_cliques (fst sk) = Inr True"
    by (simp add: crowded_attempts crowded_cliques)
  ultimately show ?thesis by blast
qed










subsection \<open>The square root of the lattice size\<close>

lemma ceil_sqrt_eq:
  assumes "0 \<le> x"
  shows "ceil_sqrt x = \<lceil>sqrt x\<rceil>"
proof -
  define k0 where "k0 = nat \<lceil>sqrt x\<rceil>"
  have s0: "0 \<le> sqrt x" using assms by simp
  then have c0: "0 \<le> \<lceil>sqrt x\<rceil>" by linarith
  have k0: "int k0 = \<lceil>sqrt x\<rceil>" using c0 by (simp add: k0_def)
  have up: "sqrt x \<le> real k0"
  proof -
    have "sqrt x \<le> real_of_int \<lceil>sqrt x\<rceil>" by linarith
    also have "\<dots> = real k0" using k0 by (metis of_int_of_nat_eq)
    finally show ?thesis .
  qed
  have P: "x \<le> real (k0 * k0)"
  proof -
    have "sqrt x * sqrt x \<le> real k0 * real k0"
      using up s0 by (intro mult_mono) simp_all
    then show ?thesis using assms by simp
  qed
  have low: "\<not> x \<le> real (j * j)" if "j < k0" for j
  proof
    assume "x \<le> real (j * j)"
    then have "sqrt x \<le> sqrt (real (j * j))" by (rule real_sqrt_le_mono)
    then have "sqrt x \<le> real j" by simp
    then have "\<lceil>sqrt x\<rceil> \<le> int j" by (simp add: ceiling_le_iff)
    with k0 that show False by simp
  qed
  have le: "k0 \<le> nat \<lceil>x\<rceil>"
  proof (cases "x \<le> 1")
    case True
    show ?thesis
    proof (cases "x = 0")
      case True
      then show ?thesis by (simp add: k0_def)
    next
      case False
      with assms have "0 < x" by simp
      then have "1 \<le> \<lceil>x\<rceil>" by linarith
      moreover have "sqrt x \<le> 1" using True by simp
      then have "\<lceil>sqrt x\<rceil> \<le> 1" by (simp add: ceiling_le_iff)
      ultimately have "\<lceil>sqrt x\<rceil> \<le> \<lceil>x\<rceil>" by linarith
      then show ?thesis unfolding k0_def by (rule nat_mono)
    qed
  next
    case False
    then have "1 \<le> x" by simp
    then have "sqrt x \<le> x" by (metis assms mult_left_mono mult_1_right real_sqrt_mult_self abs_of_nonneg real_sqrt_ge_one s0 mult.commute)
    then have "\<lceil>sqrt x\<rceil> \<le> \<lceil>x\<rceil>" by (rule ceiling_mono)
    then show ?thesis unfolding k0_def by (rule nat_mono)
  qed
  have "find (\<lambda>k. x \<le> real (k * k)) [0..<Suc (nat \<lceil>x\<rceil>)] = Some k0"
    unfolding find_Some_iff
  proof (intro exI[of _ k0] conjI allI impI)
    show "k0 < length [0..<Suc (nat \<lceil>x\<rceil>)]" using le by simp
    show "x \<le> real ([0..<Suc (nat \<lceil>x\<rceil>)] ! k0 * [0..<Suc (nat \<lceil>x\<rceil>)] ! k0)"
      using le P by (simp add: nth_upt del: upt_Suc)
    show "k0 = [0..<Suc (nat \<lceil>x\<rceil>)] ! k0" using le by (simp add: nth_upt del: upt_Suc)
    fix j assume "j < k0"
    then show "\<not> x \<le> real ([0..<Suc (nat \<lceil>x\<rceil>)] ! j * [0..<Suc (nat \<lceil>x\<rceil>)] ! j)"
      using le low[of j] by (simp add: nth_upt del: upt_Suc)
  qed
  then show ?thesis by (simp add: ceil_sqrt_def k0)
qed

subsection \<open>Routing failures while the cities are connected\<close>

text \<open>Two runs of \<open>_connect_cities\<close> with libraries that give the same directions stay in
  step: they hold the same locals, and whatever relation the routing calls keep between
  the two grids, paths and warnings holds at the end, or both raise the same exception.\<close>

lemma rel_sum_bindE:
  assumes "rel_sum (=) A m m'"
      and "\<And>x x'. A x x' \<Longrightarrow> rel_sum (=) B (f x) (f' x')"
  shows "rel_sum (=) B (bindE m f) (bindE m' f')"
  using assms by (cases m; cases m') simp_all

lemma rel_sum_bindE_same:
  assumes "\<And>x. m = Inr x \<Longrightarrow> rel_sum (=) B (f x) (f' x)"
  shows "rel_sum (=) B (bindE m f) (bindE m f')"
  using assms by (cases m) simp_all

lemma even_step_library:
  assumes "direction_to_point E' = direction_to_point E"
  shows "even_step E' ps idx p nb out loc = even_step E ps idx p nb out loc"
  unfolding even_step_def assms by (rule refl)

lemma out_directions_library:
  assumes "direction_to_point E' = direction_to_point E"
  shows "out_directions E' ps cp p idxs = out_directions E ps cp p idxs"
  unfolding out_directions_def assms by (rule refl)

lemma odd_step_sim:
  assumes step: "\<And>s e u u'. R u u' \<Longrightarrow> R (route E' cells s e u) (route E cells s e u')"
      and "R u u'"
  shows "rel_sum (=) (\<lambda>s s'. fst s = fst s' \<and> R (snd s) (snd s'))
           (odd_step E' cells out (loc, u)) (odd_step E cells out (loc, u'))"
  unfolding odd_step_def Let_def fst_conv snd_conv
  by (intro rel_sum_bindE_same)
     (auto intro!: rel_sum_bindE_same step assms(2))

lemma connect_pass_sim:
  assumes dir: "direction_to_point E' = direction_to_point E"
      and step: "\<And>s e u u'. R u u' \<Longrightarrow> R (route E' cells s e u) (route E cells s e u')"
      and "R u u'"
  shows "rel_sum (=) (\<lambda>s s'. fst s = fst s' \<and> R (snd s) (snd s'))
           (connect_pass E' ps cells idx p nb outs (loc, u))
           (connect_pass E ps cells idx p nb outs (loc, u'))"
  using assms(3)
proof (induction outs arbitrary: loc u u')
  case Nil
  then show ?case by simp
next
  case (Cons out outs)
  have first: "rel_sum (=) (\<lambda>s s'. fst s = fst s' \<and> R (snd s) (snd s'))
           (if loop_i loc mod 2 = 0
            then bindE (even_step E' ps idx p nb out loc) (\<lambda>loc'. Inr (loc', u))
            else odd_step E' cells out (loc, u))
           (if loop_i loc mod 2 = 0
            then bindE (even_step E ps idx p nb out loc) (\<lambda>loc'. Inr (loc', u'))
            else odd_step E cells out (loc, u'))"
  proof (cases "loop_i loc mod 2 = 0")
    case True
    then show ?thesis
      using Cons.prems
      by (simp add: even_step_library[OF dir]) (intro rel_sum_bindE_same, simp)
  next
    case False
    then show ?thesis using odd_step_sim[of R E' cells E, OF step Cons.prems] by simp
  qed
  show ?case
    unfolding connect_pass.simps fst_conv snd_conv
  proof (rule rel_sum_bindE[OF first])
    fix x :: "cc_locals \<times> 'a cc_out" and x' :: "cc_locals \<times> 'b cc_out"
    assume "fst x = fst x' \<and> R (snd x) (snd x')"
    then show "rel_sum (=) (\<lambda>s s'. fst s = fst s' \<and> R (snd s) (snd s'))
        (connect_pass E' ps cells idx p nb outs (fst x\<lparr>loop_i := loop_i (fst x) + 1\<rparr>, snd x))
        (connect_pass E ps cells idx p nb outs (fst x'\<lparr>loop_i := loop_i (fst x') + 1\<rparr>, snd x'))"
      using Cons.IH[of "snd x" "snd x'" "fst x\<lparr>loop_i := loop_i (fst x) + 1\<rparr>"] by simp
  qed
qed


lemma connect_city_sim:
  assumes dir: "direction_to_point E' = direction_to_point E"
      and step: "\<And>s e u u'. R u u' \<Longrightarrow> R (route E' cells s e u) (route E cells s e u')"
      and "R u u'"
  shows "rel_sum (=) (\<lambda>s s'. fst s = fst s' \<and> R (snd s) (snd s'))
           (connect_city E' ps cps cells idx (loc, u))
           (connect_city E ps cps cells idx (loc, u'))"
  unfolding connect_city_def Let_def out_directions_library[OF dir] fst_conv snd_conv
proof (intro rel_sum_bindE_same, simp only: split_paired_all prod.case, intro rel_sum_bindE_same)
  fix city_position city_points cd scd outs
  let ?nd = "argsort (map (get_manhattan_distance city_position) ps)"
  have first: "rel_sum (=) (\<lambda>s s'. fst s = fst s' \<and> R (snd s) (snd s'))
     (connect_pass E' ps cells idx city_position (py_index ?nd 1) outs
        (loc\<lparr>connection_points_copy := cps, loop_i := 0\<rparr>, u))
     (connect_pass E ps cells idx city_position (py_index ?nd 1) outs
        (loc\<lparr>connection_points_copy := cps, loop_i := 0\<rparr>, u'))"
    by (rule connect_pass_sim[OF dir step assms(3)])
  show "rel_sum (=) (\<lambda>s s'. fst s = fst s' \<and> R (snd s) (snd s'))
     (bindE (connect_pass E' ps cells idx city_position (py_index ?nd 1) outs
               (loc\<lparr>connection_points_copy := cps, loop_i := 0\<rparr>, u))
        (\<lambda>s1. if cd \<noteq> scd
              then bindE (py_index city_points (int scd))
                     (\<lambda>outs2. connect_pass E' ps cells idx city_position (py_index ?nd 2) outs2
                                (fst s1\<lparr>connection_points_copy := cps\<rparr>, snd s1))
              else Inr s1))
     (bindE (connect_pass E ps cells idx city_position (py_index ?nd 1) outs
               (loc\<lparr>connection_points_copy := cps, loop_i := 0\<rparr>, u'))
        (\<lambda>s1. if cd \<noteq> scd
              then bindE (py_index city_points (int scd))
                     (\<lambda>outs2. connect_pass E ps cells idx city_position (py_index ?nd 2) outs2
                                (fst s1\<lparr>connection_points_copy := cps\<rparr>, snd s1))
              else Inr s1))"
  proof (rule rel_sum_bindE[OF first])
    fix x :: "cc_locals \<times> 'a cc_out" and x' :: "cc_locals \<times> 'b cc_out"
    assume xx: "fst x = fst x' \<and> R (snd x) (snd x')"
    then have r: "R (snd x) (snd x')" by simp
    show "rel_sum (=) (\<lambda>s s'. fst s = fst s' \<and> R (snd s) (snd s'))
        (if cd \<noteq> scd
         then bindE (py_index city_points (int scd))
                (\<lambda>outs2. connect_pass E' ps cells idx city_position (py_index ?nd 2) outs2
                           (fst x\<lparr>connection_points_copy := cps\<rparr>, snd x))
         else Inr x)
        (if cd \<noteq> scd
         then bindE (py_index city_points (int scd))
                (\<lambda>outs2. connect_pass E ps cells idx city_position (py_index ?nd 2) outs2
                           (fst x'\<lparr>connection_points_copy := cps\<rparr>, snd x'))
         else Inr x')"
    proof (cases "cd \<noteq> scd")
      case True
      have "rel_sum (=) (\<lambda>s s'. fst s = fst s' \<and> R (snd s) (snd s'))
              (connect_pass E' ps cells idx city_position (py_index ?nd 2) outs2
                           (fst x'\<lparr>connection_points_copy := cps\<rparr>, snd x))
              (connect_pass E ps cells idx city_position (py_index ?nd 2) outs2
                           (fst x'\<lparr>connection_points_copy := cps\<rparr>, snd x'))" for outs2
        by (rule connect_pass_sim[OF dir step r])
      with True xx show ?thesis by (simp add: rel_sum_bindE_same)
    next
      case False
      with xx show ?thesis by simp
    qed
  qed
qed

lemma connect_cities_loop_sim:
  assumes dir: "direction_to_point E' = direction_to_point E"
      and step: "\<And>s e u u'. R u u' \<Longrightarrow> R (route E' cells s e u) (route E cells s e u')"
      and "R u u'"
  shows "rel_sum (=) (\<lambda>s s'. fst s = fst s' \<and> R (snd s) (snd s'))
           (connect_cities_loop E' ps cps cells idxs (loc, u))
           (connect_cities_loop E ps cps cells idxs (loc, u'))"
  using assms(3)
proof (induction idxs arbitrary: loc u u')
  case Nil
  then show ?case by simp
next
  case (Cons idx idxs)
  show ?case
    unfolding connect_cities_loop.simps
  proof (rule rel_sum_bindE[OF connect_city_sim[OF dir step Cons.prems]])
    fix x :: "cc_locals \<times> 'a cc_out" and x' :: "cc_locals \<times> 'b cc_out"
    assume "fst x = fst x' \<and> R (snd x) (snd x')"
    then show "rel_sum (=) (\<lambda>s s'. fst s = fst s' \<and> R (snd s) (snd s'))
        (connect_cities_loop E' ps cps cells idxs x) (connect_cities_loop E ps cps cells idxs x')"
      using Cons.IH[of "snd x" "snd x'" "fst x"] by (cases x; cases x') simp
  qed
qed

lemma connect_cities_sim:
  assumes dir: "direction_to_point E' = direction_to_point E"
      and step: "\<And>s e u u'. R u u' \<Longrightarrow> R (route E' cells s e u) (route E cells s e u')"
      and init: "R \<lparr>out_grid = g', out_paths = [], out_warnings = []\<rparr>
                   \<lparr>out_grid = g, out_paths = [], out_warnings = []\<rparr>"
  shows "rel_sum (=) R (connect_cities E' ps cps cells g') (connect_cities E ps cps cells g)"
  unfolding connect_cities_def
proof (rule rel_sum_bindE[OF connect_cities_loop_sim[OF dir step init]])
  fix x :: "cc_locals \<times> 'a cc_out" and x' :: "cc_locals \<times> 'b cc_out"
  assume "fst x = fst x' \<and> R (snd x) (snd x')"
  then have "R (snd x) (snd x')" ..
  then show "rel_sum (=) R (Inr (snd x)) (Inr (snd x'))" by (rule rel_sum.intros)
qed


lemma direction_to_point_with_call_log:
  "direction_to_point (with_call_log E) = direction_to_point E"
  by (simp add: with_call_log_def)

lemma route_with_call_log:
  "route (with_call_log E) cells s e u =
     (let r = route E cells s e \<lparr>out_grid = fst (out_grid u), out_paths = out_paths u,
                                 out_warnings = out_warnings u\<rparr>
      in \<lparr>out_grid = (out_grid r,
                snd (out_grid u) @
                  [(s, e, fst (connect_rail_in_grid_map E (fst (out_grid u)) s e cells))]),
          out_paths = out_paths r, out_warnings = out_warnings r\<rparr>)"
  by (simp add: route_def with_call_log_def Let_def split: prod.splits)

lemma route_warnings:
  "out_warnings (route E cells s e u) =
     out_warnings u @ routing_warning (s, e, fst (connect_rail_in_grid_map E (out_grid u) s e cells))"
  by (simp add: route_def routing_warning_def Let_def split: prod.splits)

lemma route_paths:
  "out_paths (route E cells s e u) =
     out_paths u @ fst (connect_rail_in_grid_map E (out_grid u) s e cells)"
  by (simp add: route_def Let_def split: prod.splits)

lemma route_grid:
  "out_grid (route E cells s e u) = snd (connect_rail_in_grid_map E (out_grid u) s e cells)"
  by (simp add: route_def Let_def split: prod.splits)

lemma raises_independent_of_routing:
  assumes "direction_to_point E' = direction_to_point E"
  shows "map_sum id (\<lambda>_. ()) (connect_cities E' ps cps cells g')
       = map_sum id (\<lambda>_. ()) (connect_cities E ps cps cells g)"
proof -
  have "rel_sum (=) (\<lambda>_ _. True) (connect_cities E' ps cps cells g') (connect_cities E ps cps cells g)"
    by (rule connect_cities_sim[OF assms]) simp_all
  then show ?thesis
    by (cases "connect_cities E' ps cps cells g'"; cases "connect_cities E ps cps cells g") simp_all
qed

lemma requests_independent_of_routing:
  assumes "direction_to_point E' = direction_to_point E"
  shows "map_sum id (map (\<lambda>(s, e, line). (s, e))) (routing_calls E' ps cps cells g')
       = map_sum id (map (\<lambda>(s, e, line). (s, e))) (routing_calls E ps cps cells g)"
proof -
  have dir: "direction_to_point (with_call_log E') = direction_to_point (with_call_log E)"
    using assms by (simp add: direction_to_point_with_call_log)
  have "rel_sum (=) (\<lambda>u u'. map (\<lambda>(s, e, line). (s, e)) (snd (out_grid u))
                            = map (\<lambda>(s, e, line). (s, e)) (snd (out_grid u')))
          (connect_cities (with_call_log E') ps cps cells (g', []))
          (connect_cities (with_call_log E) ps cps cells (g, []))"
    by (rule connect_cities_sim[OF dir]) (simp_all add: route_with_call_log Let_def)
  then show ?thesis
    unfolding routing_calls_def
    by (cases "connect_cities (with_call_log E') ps cps cells (g', [])";
        cases "connect_cities (with_call_log E) ps cps cells (g, [])") simp_all
qed

lemma with_call_log_sim:
  "rel_sum (=) (\<lambda>u u'. fst (out_grid u) = out_grid u' \<and> out_paths u = out_paths u'
                    \<and> out_warnings u = out_warnings u'
                    \<and> out_warnings u = concat (map routing_warning (snd (out_grid u)))
                    \<and> out_paths u = concat (map (\<lambda>(s, e, line). line) (snd (out_grid u))))
     (connect_cities (with_call_log E) ps cps cells (g, []))
     (connect_cities E ps cps cells g)"
proof (rule connect_cities_sim[OF direction_to_point_with_call_log])
  fix s e and u :: "('a \<times> (pos \<times> pos \<times> pos list) list) cc_out" and u' :: "'a cc_out"
  assume r: "fst (out_grid u) = out_grid u' \<and> out_paths u = out_paths u'
       \<and> out_warnings u = out_warnings u'
       \<and> out_warnings u = concat (map routing_warning (snd (out_grid u)))
       \<and> out_paths u = concat (map (\<lambda>(s, e, line). line) (snd (out_grid u)))"
  then have eq: "\<lparr>out_grid = fst (out_grid u), out_paths = out_paths u,
                   out_warnings = out_warnings u\<rparr> = u'"
    by simp
  show "fst (out_grid (route (with_call_log E) cells s e u)) = out_grid (route E cells s e u')
      \<and> out_paths (route (with_call_log E) cells s e u) = out_paths (route E cells s e u')
      \<and> out_warnings (route (with_call_log E) cells s e u) = out_warnings (route E cells s e u')
      \<and> out_warnings (route (with_call_log E) cells s e u)
          = concat (map routing_warning (snd (out_grid (route (with_call_log E) cells s e u))))
      \<and> out_paths (route (with_call_log E) cells s e u)
          = concat (map (\<lambda>(s, e, line). line) (snd (out_grid (route (with_call_log E) cells s e u))))"
  proof -
    from r have a: "fst (out_grid u) = out_grid u'" and b: "out_paths u = out_paths u'"
      and c: "out_warnings u = out_warnings u'"
      and d0: "out_warnings u = concat (map routing_warning (snd (out_grid u)))"
      and f0: "out_paths u = concat (map (\<lambda>(s, e, line). line) (snd (out_grid u)))"
      by blast+
    have d: "out_warnings u' = concat (map routing_warning (snd (out_grid u)))"
      using c d0 by (rule subst)
    have f: "out_paths u' = concat (map (\<lambda>(s, e, line). line) (snd (out_grid u)))"
      using b f0 by (rule subst)
    show ?thesis
      unfolding route_with_call_log Let_def eq
      by (simp add: route_warnings route_paths d f a)
  qed
qed simp

text \<open>
  Claim C8. During the connection of the cities a routing call that answers with an empty
  line, or with a line that does not start and end at the requested cells, only adds a
  warning; \<open>_connect_cities\<close> goes on with the remaining connections, and no such answer
  makes it raise or stop. Let \<open>r\<close> be any routing function put in place of the one of the
  library \<open>E\<close> (the call itself is taken to return, as a library call that does not raise).
  Then: whether \<open>_connect_cities\<close> raises, and what, is the same as with \<open>E\<close>; the routing
  calls it makes ask for the same connections in the same order as with \<open>E\<close>; when it
  returns, its warnings are, call after call, one warning for each call whose answer is
  empty or has a wrong end, and \<open>all_paths\<close> holds the cells of every answer; and a call adds
  no warning exactly when its answer is not empty and starts and ends where asked.
\<close>

theorem routing_failure_tolerated:
  "map_sum id (\<lambda>_. ()) (connect_cities (E\<lparr>connect_rail_in_grid_map := r\<rparr>) ps cps cells g)
     = map_sum id (\<lambda>_. ()) (connect_cities E ps cps cells g)
   \<and> map_sum id (map (\<lambda>(s, e, line). (s, e)))
       (routing_calls (E\<lparr>connect_rail_in_grid_map := r\<rparr>) ps cps cells g)
     = map_sum id (map (\<lambda>(s, e, line). (s, e))) (routing_calls E ps cps cells g)
   \<and> rel_sum (=)
       (\<lambda>out calls. out_warnings out = concat (map routing_warning calls)
                    \<and> out_paths out = concat (map (\<lambda>(s, e, line). line) calls)
                    \<and> length (out_warnings out)
                        = length (filter (\<lambda>(s, e, line). line = [] \<or> hd line \<noteq> s \<or> last line \<noteq> e)
                                    calls))
       (connect_cities (E\<lparr>connect_rail_in_grid_map := r\<rparr>) ps cps cells g)
       (routing_calls (E\<lparr>connect_rail_in_grid_map := r\<rparr>) ps cps cells g)
   \<and> (routing_warning (s, e, line) = [] \<longleftrightarrow> line \<noteq> [] \<and> hd line = s \<and> last line = e)"
proof (intro conjI)
  let ?E' = "E\<lparr>connect_rail_in_grid_map := r\<rparr>"
  have dir: "direction_to_point ?E' = direction_to_point E"
    by simp
  show "map_sum id (\<lambda>_. ()) (connect_cities ?E' ps cps cells g)
     = map_sum id (\<lambda>_. ()) (connect_cities E ps cps cells g)"
    by (rule raises_independent_of_routing[OF dir])
  show "map_sum id (map (\<lambda>(s, e, line). (s, e))) (routing_calls ?E' ps cps cells g)
     = map_sum id (map (\<lambda>(s, e, line). (s, e))) (routing_calls E ps cps cells g)"
    by (rule requests_independent_of_routing[OF dir])
  have count: "length (concat (map routing_warning calls))
      = length (filter (\<lambda>(s, e, line). line = [] \<or> hd line \<noteq> s \<or> last line \<noteq> e) calls)"
    for calls :: "(pos \<times> pos \<times> pos list) list"
    by (induction calls) (auto simp add: routing_warning_def)
  show "rel_sum (=)
       (\<lambda>out calls. out_warnings out = concat (map routing_warning calls)
                    \<and> out_paths out = concat (map (\<lambda>(s, e, line). line) calls)
                    \<and> length (out_warnings out)
                        = length (filter (\<lambda>(s, e, line). line = [] \<or> hd line \<noteq> s \<or> last line \<noteq> e)
                                    calls))
       (connect_cities ?E' ps cps cells g) (routing_calls ?E' ps cps cells g)"
    using with_call_log_sim[of ?E' ps cps cells g] unfolding routing_calls_def
    by (cases "connect_cities (with_call_log ?E') ps cps cells (g, [])";
        cases "connect_cities ?E' ps cps cells g") (simp_all add: count)
  show "routing_warning (s, e, line) = [] \<longleftrightarrow> line \<noteq> [] \<and> hd line = s \<and> last line = e"
    by (auto simp add: routing_warning_def)
qed

theorem routing_failure_tolerated_witness:
  "routing_calls failing_flatland [(4, 9), (4, 24), (13, 11)]
       [[[(1, 9), (1, 10)], [], [(7, 9), (7, 10)], []],
        [[], [(4, 27), (5, 27)], [], [(4, 21), (5, 21)]],
        [[(10, 11), (10, 12)], [], [(16, 11), (16, 12)], []]] [] []
     = Inr [((7, 10), (10, 12), []), ((7, 9), (10, 11), [(10, 11), (7, 9)]),
            ((1, 9), (4, 21), []), ((1, 10), (5, 21), [(5, 21), (1, 10)]),
            ((16, 11), (5, 21), []), ((16, 12), (4, 21), [(4, 21), (16, 12)])]
   \<and> map_sum id (\<lambda>out. (out_warnings out, out_paths out))
       (connect_cities failing_flatland [(4, 9), (4, 24), (13, 11)]
         [[[(1, 9), (1, 10)], [], [(7, 9), (7, 10)], []],
          [[], [(4, 27), (5, 27)], [], [(4, 21), (5, 21)]],
          [[(10, 11), (10, 12)], [], [(16, 11), (16, 12)], []]] [] [])
     = Inr ([NoLineAdded, UnableToConnect, NoLineAdded, UnableToConnect, NoLineAdded,
             UnableToConnect],
            [(10, 11), (7, 9), (5, 21), (1, 10), (4, 21), (16, 12)])
   \<and> map_sum id (\<lambda>out. (out_warnings out, out_paths out))
       (connect_cities example_flatland [(4, 9), (4, 24), (13, 11)]
         [[[(1, 9), (1, 10)], [], [(7, 9), (7, 10)], []],
          [[], [(4, 27), (5, 27)], [], [(4, 21), (5, 21)]],
          [[(10, 11), (10, 12)], [], [(16, 11), (16, 12)], []]] [] [])
     = Inr ([], [(7, 10), (10, 12), (7, 9), (10, 11), (1, 9), (4, 21), (1, 10), (5, 21),
                 (16, 11), (5, 21), (16, 12), (4, 21)])"
proof -
  let ?ps = "[(4, 9), (4, 24), (13, 11)] :: pos list"
  let ?cps = "[[[(1, 9), (1, 10)], [], [(7, 9), (7, 10)], []],
        [[], [(4, 27), (5, 27)], [], [(4, 21), (5, 21)]],
        [[(10, 11), (10, 12)], [], [(16, 11), (16, 12)], []]] :: pos list list list"
  have fl: "example_flatland\<lparr>connect_rail_in_grid_map :=
              connect_rail_in_grid_map failing_flatland\<rparr> = failing_flatland"
    by (simp add: failing_flatland_def)
  have calls: "routing_calls failing_flatland ?ps ?cps [] []
     = Inr [((7, 10), (10, 12), []), ((7, 9), (10, 11), [(10, 11), (7, 9)]),
            ((1, 9), (4, 21), []), ((1, 10), (5, 21), [(5, 21), (1, 10)]),
            ((16, 11), (5, 21), []), ((16, 12), (4, 21), [(4, 21), (16, 12)])]"
    by code_simp
  have plain: "map_sum id (\<lambda>out. (out_warnings out, out_paths out))
       (connect_cities example_flatland ?ps ?cps [] [])
     = Inr ([], [(7, 10), (10, 12), (7, 9), (10, 11), (1, 9), (4, 21), (1, 10), (5, 21),
                 (16, 11), (5, 21), (16, 12), (4, 21)])"
    by code_simp
  have "rel_sum (=)
       (\<lambda>out calls. out_warnings out = concat (map routing_warning calls)
                    \<and> out_paths out = concat (map (\<lambda>(s, e, line). line) calls)
                    \<and> length (out_warnings out)
                        = length (filter (\<lambda>(s, e, line). line = [] \<or> hd line \<noteq> s \<or> last line \<noteq> e)
                                    calls))
       (connect_cities failing_flatland ?ps ?cps [] [])
       (routing_calls failing_flatland ?ps ?cps [] [])"
    using routing_failure_tolerated [of "connect_rail_in_grid_map failing_flatland"
        example_flatland ?ps ?cps "[]" "[]"]
    unfolding fl by blast
  then have "map_sum id (\<lambda>out. (out_warnings out, out_paths out))
       (connect_cities failing_flatland ?ps ?cps [] [])
     = Inr ([NoLineAdded, UnableToConnect, NoLineAdded, UnableToConnect, NoLineAdded,
             UnableToConnect],
            [(10, 11), (7, 9), (5, 21), (1, 10), (4, 21), (16, 12)])"
    unfolding calls
    by (cases "connect_cities failing_flatland ?ps ?cps [] []")
       (simp_all add: routing_warning_def)
  with calls plain show ?thesis by simp
qed

end
